theory Spec2Isabelle
  imports Main "HOL-Library.Word" "HOL-Library.Char_ord" "HOL-Library.List_Lexorder"
    "HOL-Library.Sublist"
begin

unbundle bit_operations_syntax

section \<open>Registration store (sprout/regstore.cpp)\<close>

subsection \<open>Data model\<close>

text \<open>
  The C++ \<^verbatim>\<open>int\<close> is 32 bits wide (the serialisation writes \<^verbatim>\<open>sizeof(int)\<close> bytes
  and the format is one of int32 fields); comparisons on it are signed. The CAS token is a
  \<^verbatim>\<open>uint64_t\<close>. A \<^verbatim>\<open>std::string\<close> is a list of bytes, compared lexicographically on
  unsigned byte values.
\<close>

type_synonym int32 = "32 word"
type_synonym uint64 = "64 word"

text \<open>
  \<^verbatim>\<open>RegStore::AoR::Binding\<close>. Modelled from the spec: regstore.h, which declares the class,
  is not under src; the fields are those regstore.cpp reads and writes (\<^verbatim>\<open>_uri\<close>,
  \<^verbatim>\<open>_cid\<close>, \<^verbatim>\<open>_cseq\<close>, \<^verbatim>\<open>_expires\<close>, \<^verbatim>\<open>_priority\<close>, \<^verbatim>\<open>_params\<close>,
  \<^verbatim>\<open>_path_headers\<close>), with the types the spec's data model gives them.
\<close>

record Binding =
  uri :: string
  cid :: string
  cseq :: int32
  expires :: int32
  priority :: int32
  params :: "(string \<times> string) list"
  path_headers :: "string list"

text \<open>
  \<^verbatim>\<open>AoR::Bindings\<close>. Modelled from the spec: the type is declared in regstore.h, which is
  not under src; regstore.cpp uses it as a \<^verbatim>\<open>std::map\<close> from binding id to binding
  (\<^verbatim>\<open>find\<close>, \<^verbatim>\<open>insert\<close> of a pair, \<^verbatim>\<open>erase\<close> of an iterator), and within one AoR
  the binding ids are unique. It is an association list whose keys are strictly
  increasing, which is the order in which the map's iterators visit it.
\<close>

type_synonym Bindings = "(string \<times> Binding) list"

record AoR =
  bindings :: Bindings
  cas :: uint64

definition Bindings_ok :: "Bindings \<Rightarrow> bool" where
  "Bindings_ok bs = sorted_wrt (<) (map fst bs)"

text \<open>\<^verbatim>\<open>std::map::find\<close>: the value stored under the key, if any.\<close>

fun Bindings_find :: "string \<Rightarrow> Bindings \<Rightarrow> Binding option" where
  "Bindings_find k [] = None"
| "Bindings_find k ((k', b) # bs) = (if k = k' then Some b else Bindings_find k bs)"

text \<open>\<^verbatim>\<open>std::map::insert\<close>: puts the pair at its place in key order; a key that is
  already present keeps its value.\<close>

fun Bindings_insert :: "string \<Rightarrow> Binding \<Rightarrow> Bindings \<Rightarrow> Bindings" where
  "Bindings_insert k b [] = [(k, b)]"
| "Bindings_insert k b ((k', b') # bs) =
     (if k < k' then (k, b) # (k', b') # bs
      else if k = k' then (k', b') # bs
      else (k', b') # Bindings_insert k b bs)"

text \<open>A write through the \<^verbatim>\<open>Binding*\<close> that \<^verbatim>\<open>get_binding\<close> returned: the binding
  stored under the key is replaced.\<close>

fun Bindings_assign :: "string \<Rightarrow> Binding \<Rightarrow> Bindings \<Rightarrow> Bindings" where
  "Bindings_assign k b [] = []"
| "Bindings_assign k b ((k', b') # bs) =
     (if k = k' then (k', b) # bs else (k', b') # Bindings_assign k b bs)"

text \<open>
  The contents of the storage the code leaves uninitialised: the three integer fields of
  a \<^verbatim>\<open>new Binding\<close>, and the locals \<^verbatim>\<open>num_bindings\<close> and \<^verbatim>\<open>num_params\<close> of
  \<^verbatim>\<open>deserialize_aor\<close> before the first \<^verbatim>\<open>iss.read\<close> into them. They are a parameter of
  the model.
\<close>

record uninit =
  u_cseq :: int32
  u_expires :: int32
  u_priority :: int32
  u_num_bindings :: int32
  u_num_params :: int32

text \<open>
  \<^verbatim>\<open>new Binding\<close>. Modelled from the spec: the constructor is declared in regstore.h, which
  is not under src. The created binding is completely empty, even the Contact URI field:
  empty strings and empty lists. Nothing gives the integer fields a value.
\<close>

definition Binding_new :: "uninit \<Rightarrow> Binding" where
  "Binding_new u =
     \<lparr>uri = [], cid = [], cseq = u_cseq u, expires = u_expires u, priority = u_priority u,
      params = [], path_headers = []\<rparr>"

text \<open>\<^verbatim>\<open>RegStore::AoR::AoR()\<close>: no bindings, CAS 0.\<close>

definition AoR_new :: AoR where
  "AoR_new = \<lparr>bindings = [], cas = 0\<rparr>"

text \<open>\<^verbatim>\<open>RegStore::AoR::get_binding\<close>: the binding and the AoR after the call.\<close>

definition get_binding :: "uninit \<Rightarrow> string \<Rightarrow> AoR \<Rightarrow> Binding \<times> AoR" where
  "get_binding u binding_id a =
     (case Bindings_find binding_id (bindings a) of
        Some b \<Rightarrow> (b, a)
      | None \<Rightarrow>
          (let b = Binding_new u
           in (b, a\<lparr>bindings := Bindings_insert binding_id b (bindings a)\<rparr>)))"

text \<open>\<^verbatim>\<open>RegStore::AoR::remove_binding\<close>.\<close>

fun Bindings_erase :: "string \<Rightarrow> Bindings \<Rightarrow> Bindings" where
  "Bindings_erase k [] = []"
| "Bindings_erase k ((k', b') # bs) =
     (if k = k' then bs else (k', b') # Bindings_erase k bs)"

definition remove_binding :: "string \<Rightarrow> AoR \<Rightarrow> AoR" where
  "remove_binding binding_id a = a\<lparr>bindings := Bindings_erase binding_id (bindings a)\<rparr>"

subsection \<open>Integers as bytes\<close>

text \<open>
  \<^verbatim>\<open>oss.write((const char *)&n, sizeof(int))\<close> copies the four bytes of the int as they lie
  in memory, in the byte order of the host, and \<^verbatim>\<open>iss.read\<close> copies them back. The byte
  order is a parameter of the model.
\<close>

datatype endian = LittleEndian | BigEndian

definition le_bytes :: "int32 \<Rightarrow> string" where
  "le_bytes w = [char_of (uint w), char_of (uint w div 256),
                 char_of (uint w div 65536), char_of (uint w div 16777216)]"

fun le_word :: "string \<Rightarrow> int32" where
  "le_word [c0, c1, c2, c3] =
     word_of_int (of_char c0 + 256 * of_char c1 + 65536 * of_char c2 + 16777216 * of_char c3)"
| "le_word cs = 0"

definition int_bytes :: "endian \<Rightarrow> int32 \<Rightarrow> string" where
  "int_bytes h w = (case h of LittleEndian \<Rightarrow> le_bytes w | BigEndian \<Rightarrow> rev (le_bytes w))"

definition bytes_int :: "endian \<Rightarrow> string \<Rightarrow> int32" where
  "bytes_int h cs = (case h of LittleEndian \<Rightarrow> le_word cs | BigEndian \<Rightarrow> le_word (rev cs))"

subsection \<open>Serialisation\<close>

definition NUL :: char where
  "NUL = CHR 0x00"

text \<open>The loop over \<^verbatim>\<open>b->_params\<close>: name, NUL, value, NUL for each pair.\<close>

fun serialize_params :: "(string \<times> string) list \<Rightarrow> string" where
  "serialize_params [] = []"
| "serialize_params ((n, v) # ps) = n @ [NUL] @ v @ [NUL] @ serialize_params ps"

text \<open>The loop over \<^verbatim>\<open>b->_path_headers\<close>.\<close>

fun serialize_path_headers :: "string list \<Rightarrow> string" where
  "serialize_path_headers [] = []"
| "serialize_path_headers (p # ps) = p @ [NUL] @ serialize_path_headers ps"

text \<open>The body of the loop over the bindings; the counts are the sizes converted to
  \<^verbatim>\<open>int\<close>.\<close>

definition serialize_binding :: "endian \<Rightarrow> string \<times> Binding \<Rightarrow> string" where
  "serialize_binding h kb =
     fst kb @ [NUL] @
     uri (snd kb) @ [NUL] @
     cid (snd kb) @ [NUL] @
     int_bytes h (cseq (snd kb)) @
     int_bytes h (expires (snd kb)) @
     int_bytes h (priority (snd kb)) @
     int_bytes h (of_nat (length (params (snd kb)))) @
     serialize_params (params (snd kb)) @
     int_bytes h (of_nat (length (path_headers (snd kb)))) @
     serialize_path_headers (path_headers (snd kb))"

fun serialize_bindings :: "endian \<Rightarrow> Bindings \<Rightarrow> string" where
  "serialize_bindings h [] = []"
| "serialize_bindings h (kb # bs) = serialize_binding h kb @ serialize_bindings h bs"

text \<open>\<^verbatim>\<open>RegStore::serialize_aor\<close>.\<close>

definition serialize_aor :: "endian \<Rightarrow> AoR \<Rightarrow> string" where
  "serialize_aor h aor_data =
     int_bytes h (of_nat (length (bindings aor_data))) @ serialize_bindings h (bindings aor_data)"

subsection \<open>The input stream\<close>

text \<open>
  A \<^verbatim>\<open>std::istringstream\<close>: the bytes not yet extracted and the two state bits the code
  can set. Every extraction first tests the stream: when it is not good the extraction
  sets \<^verbatim>\<open>failbit\<close> and stores nothing.
\<close>

record istream =
  rest :: string
  eofbit :: bool
  failbit :: bool

definition istringstream :: "string \<Rightarrow> istream" where
  "istringstream s = \<lparr>rest = s, eofbit = False, failbit = False\<rparr>"

definition good :: "istream \<Rightarrow> bool" where
  "good iss = (\<not> eofbit iss \<and> \<not> failbit iss)"

text \<open>
  \<^verbatim>\<open>getline(iss, str, '\0')\<close>: on a good stream the string is erased and filled with the
  bytes before the next NUL, which is extracted and dropped; without a NUL the rest of the
  input is taken and \<^verbatim>\<open>eofbit\<close> is set, together with \<^verbatim>\<open>failbit\<close> when nothing was
  extracted.
\<close>

definition getline :: "istream \<Rightarrow> string \<Rightarrow> string \<times> istream" where
  "getline iss str =
     (if \<not> good iss then (str, iss\<lparr>failbit := True\<rparr>)
      else
        (let pre = takeWhile (\<lambda>c. c \<noteq> NUL) (rest iss)
         in case dropWhile (\<lambda>c. c \<noteq> NUL) (rest iss) of
              [] \<Rightarrow> (pre, iss\<lparr>rest := [], eofbit := True, failbit := (pre = [])\<rparr>)
            | d # post \<Rightarrow> (pre, iss\<lparr>rest := post\<rparr>)))"

text \<open>
  \<^verbatim>\<open>iss.read((char *)&n, sizeof(int))\<close>, given the value the int held before: four bytes
  are copied over it; when fewer are left, those overwrite its first bytes and both
  \<^verbatim>\<open>eofbit\<close> and \<^verbatim>\<open>failbit\<close> are set.
\<close>

definition read_int :: "endian \<Rightarrow> istream \<Rightarrow> int32 \<Rightarrow> int32 \<times> istream" where
  "read_int h iss old =
     (if \<not> good iss then (old, iss\<lparr>failbit := True\<rparr>)
      else if 4 \<le> length (rest iss)
      then (bytes_int h (take 4 (rest iss)), iss\<lparr>rest := drop 4 (rest iss)\<rparr>)
      else (bytes_int h (rest iss @ drop (length (rest iss)) (int_bytes h old)),
            iss\<lparr>rest := [], eofbit := True, failbit := True\<rparr>))"

subsection \<open>Deserialisation\<close>

text \<open>
  \<^verbatim>\<open>std::list::resize\<close> with an \<^verbatim>\<open>int\<close> count: the first elements are kept and
  default-constructed ones appended. A negative count converts to a size no allocation
  can satisfy, and the call throws. (\<open>length_error\<close> is what
  \<^verbatim>\<open>std::vector::resize\<close> throws for such a count, in the thread dispatcher.)
\<close>

datatype error = bad_alloc | length_error

definition list_resize :: "int32 \<Rightarrow> 'a \<Rightarrow> 'a list \<Rightarrow> error + 'a list" where
  "list_resize n d xs =
     (if sint n < 0 then Inl bad_alloc
      else Inr (take (nat (sint n)) xs @ replicate (nat (sint n) - length xs) d))"

text \<open>The loop over the resized \<^verbatim>\<open>b->_params\<close>: two \<^verbatim>\<open>getline\<close> calls for each
  element, into the strings it holds.\<close>

fun read_params :: "istream \<Rightarrow> (string \<times> string) list \<Rightarrow> (string \<times> string) list \<times> istream" where
  "read_params iss [] = ([], iss)"
| "read_params iss ((n, v) # ps) =
     (let (n', iss1) = getline iss n;
          (v', iss2) = getline iss1 v;
          (ps', iss3) = read_params iss2 ps
      in ((n', v') # ps', iss3))"

text \<open>The loop over the resized \<^verbatim>\<open>b->_path_headers\<close>.\<close>

fun read_path_headers :: "istream \<Rightarrow> string list \<Rightarrow> string list \<times> istream" where
  "read_path_headers iss [] = ([], iss)"
| "read_path_headers iss (p # ps) =
     (let (p', iss1) = getline iss p;
          (ps', iss2) = read_path_headers iss1 ps
      in (p' # ps', iss2))"

text \<open>The body of the loop of \<^verbatim>\<open>deserialize_aor\<close> after \<^verbatim>\<open>get_binding\<close>: the fields
  of the binding \<^verbatim>\<open>b\<close> points to are read in place. The local \<^verbatim>\<open>num_params\<close> is not
  initialised: \<open>slot\<close> is what its storage holds when the iteration begins, and the
  value it holds when the iteration ends is returned with the binding and the stream.\<close>

definition read_binding ::
  "endian \<Rightarrow> int32 \<Rightarrow> istream \<Rightarrow> Binding \<Rightarrow> error + (Binding \<times> istream \<times> int32)" where
  "read_binding h slot iss b =
     (let (uri', iss1) = getline iss (uri b);
          (cid', iss2) = getline iss1 (cid b);
          (cseq', iss3) = read_int h iss2 (cseq b);
          (expires', iss4) = read_int h iss3 (expires b);
          (priority', iss5) = read_int h iss4 (priority b);
          (num_params, iss6) = read_int h iss5 slot
      in case list_resize num_params ([], []) (params b) of
           Inl e \<Rightarrow> Inl e
         | Inr ps \<Rightarrow>
             (let (params', iss7) = read_params iss6 ps;
                  (num_paths, iss8) = read_int h iss7 0
              in case list_resize num_paths [] (path_headers b) of
                   Inl e \<Rightarrow> Inl e
                 | Inr phs \<Rightarrow>
                     (let (path_headers', iss9) = read_path_headers iss8 phs
                      in Inr (\<lparr>uri = uri', cid = cid', cseq = cseq', expires = expires',
                               priority = priority', params = params',
                               path_headers = path_headers'\<rparr>, iss9, num_params))))"

text \<open>The loop \<^verbatim>\<open>for (int ii = 0; ii < num_bindings; ++ii)\<close>, by the number of
  iterations left. The storage of \<^verbatim>\<open>num_params\<close> is the same in every iteration: what
  one iteration leaves in it is what the next one finds.\<close>

fun read_bindings ::
  "endian \<Rightarrow> uninit \<Rightarrow> nat \<Rightarrow> int32 \<Rightarrow> istream \<Rightarrow> AoR \<Rightarrow> error + AoR" where
  "read_bindings h u 0 slot iss a = Inr a"
| "read_bindings h u (Suc n) slot iss a =
     (let (binding_id, iss1) = getline iss [];
          (b, a1) = get_binding u binding_id a
      in case read_binding h slot iss1 b of
           Inl e \<Rightarrow> Inl e
         | Inr (b', iss2, slot') \<Rightarrow>
             read_bindings h u n slot' iss2
               (a1\<lparr>bindings := Bindings_assign binding_id b' (bindings a1)\<rparr>))"

text \<open>\<^verbatim>\<open>RegStore::deserialize_aor\<close>. No stream state is ever tested.\<close>

definition deserialize_aor :: "endian \<Rightarrow> uninit \<Rightarrow> string \<Rightarrow> error + AoR" where
  "deserialize_aor h u s =
     (let (num_bindings, iss1) = read_int h (istringstream s) (u_num_bindings u)
      in read_bindings h u (nat (sint num_bindings)) (u_num_params u) iss1 AoR_new)"

subsection \<open>Expiry and the store\<close>

text \<open>The loop of \<^verbatim>\<open>RegStore::expire_bindings\<close> over the map, with the running
  \<^verbatim>\<open>max_expires\<close>: a binding with \<^verbatim>\<open>_expires <= now\<close> is erased, any other one is kept
  and raises the maximum when it is later.\<close>

fun expire_loop :: "Bindings \<Rightarrow> int32 \<Rightarrow> int32 \<Rightarrow> Bindings \<times> int32" where
  "expire_loop [] now max_expires = ([], max_expires)"
| "expire_loop ((k, b) # bs) now max_expires =
     (if sint (expires b) \<le> sint now then expire_loop bs now max_expires
      else
        (let (bs', m) =
               expire_loop bs now
                 (if sint max_expires < sint (expires b) then expires b else max_expires)
         in ((k, b) # bs', m)))"

text \<open>\<^verbatim>\<open>RegStore::expire_bindings\<close>: the returned maximum and the AoR after the call.\<close>

definition expire_bindings :: "AoR \<Rightarrow> int32 \<Rightarrow> int32 \<times> AoR" where
  "expire_bindings aor_data now =
     (let (bs, max_expires) = expire_loop (bindings aor_data) now now
      in (max_expires, aor_data\<lparr>bindings := bs\<rparr>))"

text \<open>
  The data store. Modelled from the spec: store.h is not under src. The interface is the
  one of the spec's Data Store Interface: \<^verbatim>\<open>get\<close> gives a status, and with OK the value
  and its CAS; \<^verbatim>\<open>set\<close> takes namespace, key, value, CAS and a TTL in seconds and gives
  OK, CONTENTION or ERROR. The store is a parameter: two functions over a state of its own.
\<close>

datatype Status = OK | NOT_FOUND | DATA_CONTENTION | ERROR

record 's Store =
  get_data :: "string \<Rightarrow> string \<Rightarrow> 's \<Rightarrow> (Status \<times> string \<times> uint64) \<times> 's"
  set_data :: "string \<Rightarrow> string \<Rightarrow> string \<Rightarrow> uint64 \<Rightarrow> int32 \<Rightarrow> 's \<Rightarrow> Status \<times> 's"

text \<open>\<^verbatim>\<open>RegStore::get_aor_data\<close>: \<open>None\<close> is the NULL pointer; an exception of
  \<^verbatim>\<open>deserialize_aor\<close> is not caught.\<close>

definition get_aor_data ::
  "endian \<Rightarrow> uninit \<Rightarrow> 's Store \<Rightarrow> string \<Rightarrow> 's \<Rightarrow> (error + AoR option) \<times> 's" where
  "get_aor_data h u data_store aor_id st =
     (let ((status, data, cas_v), st') = get_data data_store ''reg'' aor_id st
      in if status = OK
         then (case deserialize_aor h u data of
                 Inl e \<Rightarrow> Inl e
               | Inr aor_data \<Rightarrow> Inr (Some (aor_data\<lparr>cas := cas_v\<rparr>)), st')
         else if status = NOT_FOUND
         then (Inr (Some AoR_new), st')
         else (Inr None, st'))"

text \<open>\<^verbatim>\<open>RegStore::set_aor_data\<close>, with \<^verbatim>\<open>now\<close> the value of \<^verbatim>\<open>time(NULL)\<close>: the
  returned flag, the AoR after the call and the store after it. The TTL is the \<^verbatim>\<open>int\<close>
  difference \<^verbatim>\<open>max_expires - now\<close>.\<close>

definition set_aor_data ::
  "endian \<Rightarrow> 's Store \<Rightarrow> string \<Rightarrow> AoR \<Rightarrow> int32 \<Rightarrow> 's \<Rightarrow> (bool \<times> AoR) \<times> 's" where
  "set_aor_data h data_store aor_id aor_data now st =
     (let (max_expires, aor') = expire_bindings aor_data now;
          data = serialize_aor h aor';
          (status, st') = set_data data_store ''reg'' aor_id data (cas aor') (max_expires - now) st
      in ((status = OK, aor'), st'))"

subsection \<open>Well-formed values\<close>

text \<open>
  The values the serialisation format can carry: strings without a NUL byte, fewer than
  \<open>2 ^ 31\<close> entries in each container, and the keys of the map in strictly increasing
  order.
\<close>

definition NUL_free :: "string \<Rightarrow> bool" where
  "NUL_free s = (NUL \<notin> set s)"

definition Binding_ok :: "Binding \<Rightarrow> bool" where
  "Binding_ok b =
     (NUL_free (uri b) \<and> NUL_free (cid b) \<and>
      list_all (\<lambda>nv. NUL_free (fst nv) \<and> NUL_free (snd nv)) (params b) \<and>
      list_all NUL_free (path_headers b) \<and>
      length (params b) < 2 ^ 31 \<and> length (path_headers b) < 2 ^ 31)"

definition AoR_ok :: "AoR \<Rightarrow> bool" where
  "AoR_ok a =
     (Bindings_ok (bindings a) \<and>
      list_all (\<lambda>kb. NUL_free (fst kb) \<and> Binding_ok (snd kb)) (bindings a) \<and>
      length (bindings a) < 2 ^ 31)"

subsection \<open>The write path in the words of the spec\<close>

text \<open>
  The spec's description of the write path, to compare \<^verbatim>\<open>expire_bindings\<close> and
  \<^verbatim>\<open>set_aor_data\<close> with: the bindings left are those with \<open>expires > now\<close>, and
  \<open>max_expires = max(now, max binding.expires)\<close> over them.
\<close>

definition unexpired :: "int32 \<Rightarrow> Bindings \<Rightarrow> Bindings" where
  "unexpired now bs = filter (\<lambda>kb. sint now < sint (expires (snd kb))) bs"

definition spec_max_expires :: "int32 \<Rightarrow> Bindings \<Rightarrow> int" where
  "spec_max_expires now bs = Max (insert (sint now) ((\<lambda>kb. sint (expires (snd kb))) ` set bs))"

section \<open>Thread dispatcher (src/thread_dispatcher.cpp)\<close>

text \<open>
  The calls the dispatcher makes on its collaborators (SAS, the event queue, the stack,
  the statistics tables) are recorded in the order in which they happen. What the
  collaborators answer is an input of the model.
\<close>

type_synonym TrailId = nat

datatype pjsip_method =
  PJSIP_INVITE_METHOD | PJSIP_CANCEL_METHOD | PJSIP_ACK_METHOD | PJSIP_BYE_METHOD
| PJSIP_REGISTER_METHOD | PJSIP_OPTIONS_METHOD | PJSIP_OTHER_METHOD

datatype pjsip_msg = PJSIP_REQUEST_MSG pjsip_method | PJSIP_RESPONSE_MSG int

record pjsip_rx_data =
  trail :: TrailId
  msg :: pjsip_msg
  has_cid :: bool
  has_cseq :: bool

datatype pj_status_t = PJ_SUCCESS | PJ_FAILURE

datatype SASEvent = BEGIN_THREAD_DISPATCHER

definition PJSIP_SC_INTERNAL_SERVER_ERROR :: int where
  "PJSIP_SC_INTERNAL_SERVER_ERROR = 500"

datatype effect =
    SAS_report_event TrailId SASEvent nat
  | Q_is_deadlocked bool
  | CL_SPROUT_SIP_DEADLOCK_log
  | Stop_watch_start
  | Rx_data_clone pj_status_t
  | Log_clone_failure
  | Set_trail TrailId
  | Queue_size_accumulate nat
  | Q_push pjsip_rx_data
  | Process_rx_data pjsip_rx_data
  | Log_exception_trail TrailId
  | Log_exception_call_id
  | Log_exception_cseq
  | Respond_stateless pjsip_rx_data int "int option"
  | Rx_data_free_cloned pjsip_rx_data
  | Latency_accumulate nat
  | Request_complete nat
  | Log_stopwatch_failure
  | Delete_message_event
  | Callback_run nat
  | Delete_callback nat

text \<open>How a function ends: it returns, or the process ends in \<^verbatim>\<open>abort()\<close> or
  \<^verbatim>\<open>exit(n)\<close>.\<close>

datatype 'r outcome = Returned 'r | Aborted | Exited int

text \<open>\<^verbatim>\<open>MSG_Q_DEADLOCK_TIME\<close>, in milliseconds.\<close>

definition MSG_Q_DEADLOCK_TIME :: int where
  "MSG_Q_DEADLOCK_TIME = 4000"

text \<open>The file's static state that \<^verbatim>\<open>init_thread_dispatcher\<close> sets: the number of
  worker threads (1 until set) and the deadlock threshold of \<^verbatim>\<open>event_q\<close> (none until
  set).\<close>

record dispatcher =
  num_worker_threads :: int
  worker_threads_size :: int
  deadlock_threshold :: "int option"

definition dispatcher_static :: dispatcher where
  "dispatcher_static = \<lparr>num_worker_threads = 1, worker_threads_size = 0, deadlock_threshold = None\<rparr>"

text \<open>\<^verbatim>\<open>init_thread_dispatcher\<close>. Its first statement is
  \<^verbatim>\<open>worker_threads.resize(num_worker_threads_arg)\<close>: a negative count converts to a size
  above the vector's \<^verbatim>\<open>max_size\<close> and the call throws \<^verbatim>\<open>std::length_error\<close>, before
  the threshold is set on the queue and before the statics are assigned. Otherwise the
  vector is resized, the threshold is set, the statics are assigned and \<^verbatim>\<open>PJ_SUCCESS\<close>
  is returned.\<close>

definition init_thread_dispatcher ::
  "int \<Rightarrow> dispatcher \<Rightarrow> error + (pj_status_t \<times> dispatcher)" where
  "init_thread_dispatcher num_worker_threads_arg d =
     (if num_worker_threads_arg < 0 then Inl length_error
      else Inr (PJ_SUCCESS,
                d\<lparr>worker_threads_size := num_worker_threads_arg,
                  deadlock_threshold := Some MSG_Q_DEADLOCK_TIME,
                  num_worker_threads := num_worker_threads_arg\<rparr>))"

text \<open>What the collaborators answer during one call of \<^verbatim>\<open>threads_on_rx_msg\<close>:
  \<^verbatim>\<open>event_q.is_deadlocked()\<close>, the status of \<^verbatim>\<open>pjsip_rx_data_clone\<close> and
  \<^verbatim>\<open>event_q.size()\<close>.\<close>

record rx_env =
  is_deadlocked :: bool
  clone_status :: pj_status_t
  q_size :: nat

text \<open>\<^verbatim>\<open>threads_on_rx_msg\<close>: the calls made, and how the hook ends. \<^verbatim>\<open>PJ_TRUE\<close> is
  \<open>True\<close>. The clone carries the trail that \<^verbatim>\<open>set_trail\<close> copies onto it.\<close>

definition threads_on_rx_msg :: "rx_env \<Rightarrow> pjsip_rx_data \<Rightarrow> effect list \<times> bool outcome" where
  "threads_on_rx_msg env rdata =
     (let t1 = [SAS_report_event (trail rdata) BEGIN_THREAD_DISPATCHER 0,
                Q_is_deadlocked (is_deadlocked env)]
      in if is_deadlocked env then (t1 @ [CL_SPROUT_SIP_DEADLOCK_log], Aborted)
         else
           (let t2 = t1 @ [Stop_watch_start, Rx_data_clone (clone_status env)]
            in if clone_status env \<noteq> PJ_SUCCESS then (t2 @ [Log_clone_failure], Returned True)
               else
                 (t2 @ [Set_trail (trail rdata), Queue_size_accumulate (q_size env),
                        Q_push (rdata\<lparr>trail := trail rdata\<rparr>)],
                  Returned True)))"

text \<open>
  An event popped from the queue. A message event carries the cloned \<^verbatim>\<open>rdata\<close> (or
  NULL) and, as inputs of the model, whether \<^verbatim>\<open>pjsip_endpt_process_rx_data\<close> crashes on
  it and what \<^verbatim>\<open>stop_watch.read\<close> gives.
\<close>

record MessageEvent =
  rdata :: "pjsip_rx_data option"
  crashes :: bool
  stop_watch_read :: "nat option"

datatype worker_thread_qe = MESSAGE MessageEvent | CALLBACK nat

text \<open>
  The handler block of the exception barrier. Modelled from the spec: the macros
  \<^verbatim>\<open>CW_TRY\<close>, \<^verbatim>\<open>CW_EXCEPT\<close> and \<^verbatim>\<open>CW_END\<close> come from exception_handler.h, which
  is not under src; a crash of the guarded call passes control to the block between
  \<^verbatim>\<open>CW_EXCEPT\<close> and \<^verbatim>\<open>CW_END\<close>. The result is the calls made and whether the block
  ends the process.
\<close>

definition on_exception :: "int \<Rightarrow> pjsip_rx_data \<Rightarrow> effect list \<times> unit outcome" where
  "on_exception n_workers rd =
     (let t = [Log_exception_trail (trail rd)] @
              (if has_cid rd then [Log_exception_call_id] else []) @
              (if has_cseq rd then [Log_exception_cseq] else []) @
              (case msg rd of
                 PJSIP_REQUEST_MSG m \<Rightarrow>
                   if m \<noteq> PJSIP_ACK_METHOD
                   then [Respond_stateless rd PJSIP_SC_INTERNAL_SERVER_ERROR (Some 600)]
                   else []
               | PJSIP_RESPONSE_MSG c \<Rightarrow> [])
      in if n_workers = 1 then (t, Exited 1) else (t, Returned ()))"

text \<open>After the barrier: the clone is freed and the latency recorded.\<close>

definition after_message :: "MessageEvent \<Rightarrow> pjsip_rx_data \<Rightarrow> effect list" where
  "after_message me rd =
     [Rx_data_free_cloned rd] @
     (case stop_watch_read me of
        Some latency_us \<Rightarrow> [Latency_accumulate latency_us, Request_complete latency_us]
      | None \<Rightarrow> [Log_stopwatch_failure])"

text \<open>The body of the loop of \<^verbatim>\<open>worker_thread\<close> for one popped event.\<close>

definition handle_event :: "int \<Rightarrow> worker_thread_qe \<Rightarrow> effect list \<times> unit outcome" where
  "handle_event n_workers qe =
     (case qe of
        MESSAGE me \<Rightarrow>
          (case rdata me of
             None \<Rightarrow> ([Delete_message_event], Returned ())
           | Some rd \<Rightarrow>
               if crashes me
               then (case on_exception n_workers rd of
                       (t, Returned _) \<Rightarrow>
                         ([Process_rx_data rd] @ t @ after_message me rd @ [Delete_message_event],
                          Returned ())
                     | (t, Aborted) \<Rightarrow> ([Process_rx_data rd] @ t, Aborted)
                     | (t, Exited c) \<Rightarrow> ([Process_rx_data rd] @ t, Exited c))
               else ([Process_rx_data rd] @ after_message me rd @ [Delete_message_event],
                     Returned ()))
      | CALLBACK cb \<Rightarrow> ([Callback_run cb, Delete_callback cb], Returned ()))"

text \<open>\<^verbatim>\<open>worker_thread\<close>: the loop \<^verbatim>\<open>while (event_q.pop(qe))\<close> over the events the queue
  hands to this worker until it is terminated; the thread returns 0.\<close>

fun worker_thread :: "int \<Rightarrow> worker_thread_qe list \<Rightarrow> effect list \<times> int outcome" where
  "worker_thread n_workers [] = ([], Returned 0)"
| "worker_thread n_workers (qe # qes) =
     (case handle_event n_workers qe of
        (t, Returned _) \<Rightarrow>
          (let (t', r) = worker_thread n_workers qes in (t @ t', r))
      | (t, Aborted) \<Rightarrow> (t, Aborted)
      | (t, Exited c) \<Rightarrow> (t, Exited c))"

section \<open>Response consolidation (include/appserver.h)\<close>

text \<open>
  Modelled from the spec: the consolidation of the responses of the forks is not under
  src. appserver.h declares \<^verbatim>\<open>on_response(rsp, fork_id)\<close> only, whose result says
  whether the response is forwarded upstream after suitable consolidation. The definitions
  follow the spec's best-response rule for final responses other than 2xx: the classes are
  ordered 6xx, 2xx, 3xx, 4xx, 5xx from the highest priority down; within a class the
  numerically lowest code wins; within a code the response that arrived first wins; the
  best response is forwarded once every fork has reported a final response.
\<close>

definition class_rank :: "int \<Rightarrow> nat" where
  "class_rank code =
     (if code div 100 = 6 then 5
      else if code div 100 = 2 then 4
      else if code div 100 = 3 then 3
      else if code div 100 = 4 then 2
      else if code div 100 = 5 then 1
      else 0)"

text \<open>\<open>outranks c c'\<close>: a response with code \<open>c\<close> has strictly higher priority than one
  with code \<open>c'\<close>.\<close>

definition outranks :: "int \<Rightarrow> int \<Rightarrow> bool" where
  "outranks c c' = (class_rank c' < class_rank c \<or> (class_rank c = class_rank c' \<and> c < c'))"

datatype fork_state = CALLING | PROCEEDING | COMPLETED | CANCELLED

text \<open>The part of a Service Transaction Context that consolidation uses: the state of
  each fork, by fork id, and the best response so far, as the fork it came from and its
  status code.\<close>

record consolidation =
  forks :: "fork_state list"
  best :: "(nat \<times> int) option"

definition forked :: "nat \<Rightarrow> consolidation" where
  "forked n = \<lparr>forks = replicate n CALLING, best = None\<rparr>"

definition all_final :: "consolidation \<Rightarrow> bool" where
  "all_final ctx = list_all (\<lambda>s. s = COMPLETED) (forks ctx)"

text \<open>A final response other than 2xx arrives on a fork: the best response is replaced
  only by one that outranks it, the fork is completed, and the best response is forwarded
  (the second component) when no fork is left.\<close>

definition on_final_response ::
  "consolidation \<Rightarrow> nat \<times> int \<Rightarrow> consolidation \<times> (nat \<times> int) option" where
  "on_final_response ctx rsp =
     (let best' = (case best ctx of
                     None \<Rightarrow> rsp
                   | Some b \<Rightarrow> if outranks (snd rsp) (snd b) then rsp else b);
          ctx' = \<lparr>forks = (forks ctx)[fst rsp := COMPLETED], best = Some best'\<rparr>
      in (ctx', if all_final ctx' then Some best' else None))"

text \<open>The responses of a transaction in their order of arrival: the context after the
  last one and what each of them forwarded upstream.\<close>

fun consolidate ::
  "consolidation \<Rightarrow> (nat \<times> int) list \<Rightarrow> consolidation \<times> (nat \<times> int) option list" where
  "consolidate ctx [] = (ctx, [])"
| "consolidate ctx (rsp # rsps) =
     (let (ctx', fwd) = on_final_response ctx rsp;
          (ctx'', fwds) = consolidate ctx' rsps
      in (ctx'', fwd # fwds))"

text \<open>\<open>first_best rsps i\<close>: the response at position \<open>i\<close> is outranked by none of
  the responses, and outranks every response that arrived before it.\<close>

definition first_best :: "(nat \<times> int) list \<Rightarrow> nat \<Rightarrow> bool" where
  "first_best rsps i =
     (i < length rsps \<and>
      (\<forall>j < length rsps. \<not> outranks (snd (rsps ! j)) (snd (rsps ! i))) \<and>
      (\<forall>j < i. outranks (snd (rsps ! i)) (snd (rsps ! j))))"

section \<open>Example values\<close>

text \<open>Concrete inputs at which the theorems below are instantiated.\<close>

definition ex_uninit :: uninit where
  "ex_uninit = \<lparr>u_cseq = 99, u_expires = 98, u_priority = 97, u_num_bindings = 3, u_num_params = 2\<rparr>"

definition ex_binding :: Binding where
  "ex_binding =
     \<lparr>uri = ''sip:a@b'', cid = ''c1'', cseq = 7, expires = 1060, priority = 255,
      params = [(''q'', ''0.5'')], path_headers = [''p'']\<rparr>"

definition ex_aor :: AoR where
  "ex_aor = \<lparr>bindings = [(''b1'', ex_binding\<lparr>expires := 999\<rparr>), (''b2'', ex_binding)], cas = 5\<rparr>"

definition ex_nul_aor :: AoR where
  "ex_nul_aor =
     \<lparr>bindings = [(''b'', \<lparr>uri = [CHR ''a'', NUL], cid = [], cseq = 1, expires = 2, priority = 255,
                            params = [], path_headers = []\<rparr>)],
      cas = 0\<rparr>"

definition ex_path_aor :: AoR where
  "ex_path_aor =
     \<lparr>bindings = [(''b'', \<lparr>uri = [], cid = [], cseq = 1, expires = 2, priority = 3,
                            params = [], path_headers = [''p'']\<rparr>)],
      cas = 0\<rparr>"

text \<open>A store that answers every \<^verbatim>\<open>set\<close> with a fixed status and keeps the list of
  the calls it received, and one that answers every \<^verbatim>\<open>get\<close> with a fixed result.\<close>

definition ex_store ::
  "Status \<Rightarrow> Status \<times> string \<times> uint64 \<Rightarrow> (string \<times> string \<times> string \<times> uint64 \<times> int32) list Store" where
  "ex_store set_status get_result =
     \<lparr>get_data = (\<lambda>ns k st. (get_result, st)),
      set_data = (\<lambda>ns k d c ttl st. (set_status, st @ [(ns, k, d, c, ttl)]))\<rparr>"

definition ex_rdata :: pjsip_rx_data where
  "ex_rdata = \<lparr>trail = 7, msg = PJSIP_REQUEST_MSG PJSIP_INVITE_METHOD, has_cid = True, has_cseq = True\<rparr>"

definition ex_crash :: MessageEvent where
  "ex_crash = \<lparr>rdata = Some ex_rdata, crashes = True, stop_watch_read = Some 5\<rparr>"

section \<open>Properties of the registration store\<close>

lemma Bindings_find_insert_same:
  "Bindings_find k bs = None \<Longrightarrow> Bindings_find k (Bindings_insert k b bs) = Some b"
  by (induction bs) (auto split: if_splits)

lemma Bindings_find_insert_other:
  "k' \<noteq> k \<Longrightarrow> Bindings_find k' (Bindings_insert k b bs) = Bindings_find k' bs"
  by (induction bs) auto

subsection \<open>Serialisation and deserialisation\<close>

lemma bytes_sum:
  fixes u :: int
  assumes "0 \<le> u" "u < 4294967296"
  shows "u mod 256 + 256 * (u div 256 mod 256) + 65536 * (u div 65536 mod 256)
           + 16777216 * (u div 16777216 mod 256) = u"
proof -
  define a where "a = u div 256"
  define b where "b = a div 256"
  define c where "c = b div 256"
  have e2: "u div 65536 = b"
    using zdiv_zmult2_eq [of 256 u 256] by (simp add: a_def b_def)
  have e3: "u div 16777216 = c"
    using zdiv_zmult2_eq [of 256 u 65536] e2 by (simp add: c_def)
  have c0: "0 \<le> c" "c < 256"
    using assms e3 [symmetric] by simp_all
  have d1: "u = u mod 256 + 256 * a"
    by (simp add: a_def)
  have d2: "a = a mod 256 + 256 * b"
    by (simp add: b_def)
  have d3: "b = b mod 256 + 256 * c"
    by (simp add: c_def)
  have d4: "c mod 256 = c"
    using c0 by simp
  show ?thesis
    unfolding e2 e3 a_def [symmetric] d4
    using d1 d2 d3 by linarith
qed

lemma le_word_le_bytes: "le_word (le_bytes w) = w"
proof -
  have "0 \<le> uint w" "uint w < 4294967296"
    using uint_lt2p [of w] by simp_all
  then show ?thesis
    unfolding le_bytes_def by (simp add: bytes_sum)
qed

lemma bytes_int_int_bytes: "bytes_int h (int_bytes h w) = w"
  by (cases h) (simp_all add: bytes_int_def int_bytes_def le_word_le_bytes)

lemma length_int_bytes: "length (int_bytes h w) = 4"
  by (cases h) (simp_all add: int_bytes_def le_bytes_def)

lemma good_rest_update: "good (iss\<lparr>rest := r\<rparr>) = good iss"
  by (simp add: good_def)

lemma NUL_free_all: "NUL_free s \<Longrightarrow> x \<in> set s \<Longrightarrow> x \<noteq> NUL"
  by (auto simp: NUL_free_def)

lemma getline_NUL:
  assumes "good iss" "NUL_free s" "rest iss = s @ NUL # r"
  shows "getline iss old = (s, iss\<lparr>rest := r\<rparr>)"
proof -
  have "takeWhile (\<lambda>c. c \<noteq> NUL) (s @ NUL # r) = s"
    using NUL_free_all [OF assms(2)] by (simp add: takeWhile_append2)
  moreover have "dropWhile (\<lambda>c. c \<noteq> NUL) (s @ NUL # r) = NUL # r"
    using NUL_free_all [OF assms(2)] by (simp add: dropWhile_append2)
  ultimately show ?thesis
    using assms(1,3) by (simp add: getline_def)
qed

lemma read_int_bytes:
  assumes "good iss" "rest iss = int_bytes h w @ r"
  shows "read_int h iss old = (w, iss\<lparr>rest := r\<rparr>)"
  using assms by (simp add: read_int_def length_int_bytes bytes_int_int_bytes)

lemma read_params_ok:
  assumes "good iss"
    and "list_all (\<lambda>nv. NUL_free (fst nv) \<and> NUL_free (snd nv)) ps"
    and "length olds = length ps"
    and "rest iss = serialize_params ps @ r"
  shows "read_params iss olds = (ps, iss\<lparr>rest := r\<rparr>)"
  using assms
proof (induction ps arbitrary: iss olds)
  case Nil
  then show ?case by simp
next
  case (Cons nv ps)
  obtain n v where nv: "nv = (n, v)" by (cases nv)
  obtain o1 o2 olds' where olds: "olds = (o1, o2) # olds'" and len: "length olds' = length ps"
    using Cons.prems(3) by (cases olds) auto
  from Cons.prems(2) nv have nf: "NUL_free n" "NUL_free v"
    and rest_ok: "list_all (\<lambda>nv. NUL_free (fst nv) \<and> NUL_free (snd nv)) ps"
    by simp_all
  have r0: "rest iss = n @ NUL # (v @ NUL # (serialize_params ps @ r))"
    using Cons.prems(4) nv by simp
  have g1: "getline iss o1 = (n, iss\<lparr>rest := v @ NUL # (serialize_params ps @ r)\<rparr>)"
    by (rule getline_NUL [OF Cons.prems(1) nf(1) r0])
  have g2: "getline (iss\<lparr>rest := v @ NUL # (serialize_params ps @ r)\<rparr>) o2
              = (v, iss\<lparr>rest := serialize_params ps @ r\<rparr>)"
    using getline_NUL [of "iss\<lparr>rest := v @ NUL # (serialize_params ps @ r)\<rparr>" v
        "serialize_params ps @ r" o2] Cons.prems(1) nf(2)
    by (simp add: good_rest_update)
  have ih: "read_params (iss\<lparr>rest := serialize_params ps @ r\<rparr>) olds' = (ps, iss\<lparr>rest := r\<rparr>)"
    using Cons.IH [of "iss\<lparr>rest := serialize_params ps @ r\<rparr>" olds'] Cons.prems(1) rest_ok len
    by (simp add: good_rest_update)
  show ?case
    by (simp add: olds nv g1 g2 ih)
qed

lemma read_path_headers_ok:
  assumes "good iss"
    and "list_all NUL_free ps"
    and "length olds = length ps"
    and "rest iss = serialize_path_headers ps @ r"
  shows "read_path_headers iss olds = (ps, iss\<lparr>rest := r\<rparr>)"
  using assms
proof (induction ps arbitrary: iss olds)
  case Nil
  then show ?case by simp
next
  case (Cons p ps)
  obtain o1 olds' where olds: "olds = o1 # olds'" and len: "length olds' = length ps"
    using Cons.prems(3) by (cases olds) auto
  from Cons.prems(2) have nf: "NUL_free p" and rest_ok: "list_all NUL_free ps"
    by simp_all
  have r0: "rest iss = p @ NUL # (serialize_path_headers ps @ r)"
    using Cons.prems(4) by simp
  have g1: "getline iss o1 = (p, iss\<lparr>rest := serialize_path_headers ps @ r\<rparr>)"
    by (rule getline_NUL [OF Cons.prems(1) nf r0])
  have ih: "read_path_headers (iss\<lparr>rest := serialize_path_headers ps @ r\<rparr>) olds'
              = (ps, iss\<lparr>rest := r\<rparr>)"
    using Cons.IH [of "iss\<lparr>rest := serialize_path_headers ps @ r\<rparr>" olds'] Cons.prems(1) rest_ok len
    by (simp add: good_rest_update)
  show ?case
    by (simp add: olds g1 ih)
qed

lemma sint_of_nat_small:
  assumes "n < 2 ^ 31"
  shows "sint (of_nat n :: int32) = int n"
proof -
  have "int n < int (2 ^ 31)"
    using assms by (simp only: of_nat_less_iff)
  then have "int n < 2 ^ 31"
    by simp
  then have "signed_take_bit 31 (int n) = int n"
    by (intro signed_take_bit_int_eq_self) simp_all
  then show ?thesis
    by (simp add: signed_of_nat)
qed

lemma list_resize_fresh:
  assumes "n < 2 ^ 31"
  shows "list_resize (of_nat n) d [] = Inr (replicate n d)"
  using assms by (simp add: list_resize_def sint_of_nat_small)

lemma Bindings_find_fresh:
  "\<forall>k' \<in> set (map fst acc). k' < k \<Longrightarrow> Bindings_find k acc = None"
  by (induction acc) auto

lemma Bindings_insert_last:
  "\<forall>k' \<in> set (map fst acc). k' < k \<Longrightarrow> Bindings_insert k b acc = acc @ [(k, b)]"
  by (induction acc) auto

lemma Bindings_assign_last:
  "\<forall>k' \<in> set (map fst acc). k' < k \<Longrightarrow>
     Bindings_assign k b' (acc @ [(k, b)]) = acc @ [(k, b')]"
  by (induction acc) auto

lemma get_binding_fresh:
  assumes "\<forall>k' \<in> set (map fst (bindings a)). k' < k"
  shows "get_binding u k a = (Binding_new u, a\<lparr>bindings := bindings a @ [(k, Binding_new u)]\<rparr>)"
  using assms by (simp add: get_binding_def Let_def Bindings_find_fresh Bindings_insert_last)

lemma read_binding_fields:
  assumes g: "good iss"
    and ok: "Binding_ok b"
    and r: "rest iss = uri b @ NUL # cid b @ NUL #
              int_bytes h (cseq b) @ int_bytes h (expires b) @ int_bytes h (priority b) @
              int_bytes h (of_nat (length (params b))) @ serialize_params (params b) @
              int_bytes h (of_nat (length (path_headers b))) @ x"
    and p: "read_path_headers (iss\<lparr>rest := x\<rparr>) (replicate (length (path_headers b)) [])
              = (path_headers b, iss')"
  shows "read_binding h slot iss (Binding_new u) = Inr (b, iss', of_nat (length (params b)))"
proof -
  let ?r8 = "x"
  let ?r7 = "int_bytes h (of_nat (length (path_headers b))) @ ?r8"
  let ?r6 = "serialize_params (params b) @ ?r7"
  let ?r5 = "int_bytes h (of_nat (length (params b))) @ ?r6"
  let ?r4 = "int_bytes h (priority b) @ ?r5"
  let ?r3 = "int_bytes h (expires b) @ ?r4"
  let ?r2 = "int_bytes h (cseq b) @ ?r3"
  let ?r1 = "cid b @ NUL # ?r2"
  from ok have nf: "NUL_free (uri b)" "NUL_free (cid b)"
    and pa: "list_all (\<lambda>nv. NUL_free (fst nv) \<and> NUL_free (snd nv)) (params b)"
    and l1: "length (params b) < 2 ^ 31" and l2: "length (path_headers b) < 2 ^ 31"
    by (simp_all add: Binding_ok_def)
  have s1: "getline iss (uri (Binding_new u)) = (uri b, iss\<lparr>rest := ?r1\<rparr>)"
    using getline_NUL [OF g nf(1), of ?r1] r by simp
  have s2: "getline (iss\<lparr>rest := ?r1\<rparr>) (cid (Binding_new u)) = (cid b, iss\<lparr>rest := ?r2\<rparr>)"
    using getline_NUL [of "iss\<lparr>rest := ?r1\<rparr>" "cid b" ?r2] g nf(2)
    by (simp add: good_rest_update)
  have s3: "read_int h (iss\<lparr>rest := ?r2\<rparr>) (cseq (Binding_new u)) = (cseq b, iss\<lparr>rest := ?r3\<rparr>)"
    using read_int_bytes [of "iss\<lparr>rest := ?r2\<rparr>" h "cseq b" ?r3] g
    by (simp add: good_rest_update)
  have s4: "read_int h (iss\<lparr>rest := ?r3\<rparr>) (expires (Binding_new u))
              = (expires b, iss\<lparr>rest := ?r4\<rparr>)"
    using read_int_bytes [of "iss\<lparr>rest := ?r3\<rparr>" h "expires b" ?r4] g
    by (simp add: good_rest_update)
  have s5: "read_int h (iss\<lparr>rest := ?r4\<rparr>) (priority (Binding_new u))
              = (priority b, iss\<lparr>rest := ?r5\<rparr>)"
    using read_int_bytes [of "iss\<lparr>rest := ?r4\<rparr>" h "priority b" ?r5] g
    by (simp add: good_rest_update)
  have s6: "read_int h (iss\<lparr>rest := ?r5\<rparr>) slot
              = (of_nat (length (params b)), iss\<lparr>rest := ?r6\<rparr>)"
    using read_int_bytes [of "iss\<lparr>rest := ?r5\<rparr>" h "of_nat (length (params b))" ?r6] g
    by (simp add: good_rest_update)
  have z1: "list_resize (of_nat (length (params b))) ([], []) (params (Binding_new u))
              = Inr (replicate (length (params b)) ([], []))"
    using list_resize_fresh [OF l1] by (simp add: Binding_new_def)
  have s7: "read_params (iss\<lparr>rest := ?r6\<rparr>) (replicate (length (params b)) ([], []))
              = (params b, iss\<lparr>rest := ?r7\<rparr>)"
    using read_params_ok [of "iss\<lparr>rest := ?r6\<rparr>" "params b" _ ?r7] g pa
    by (simp add: good_rest_update)
  have s8: "read_int h (iss\<lparr>rest := ?r7\<rparr>) 0
              = (of_nat (length (path_headers b)), iss\<lparr>rest := ?r8\<rparr>)"
    using read_int_bytes [of "iss\<lparr>rest := ?r7\<rparr>" h "of_nat (length (path_headers b))" ?r8] g
    by (simp add: good_rest_update)
  have z2: "list_resize (of_nat (length (path_headers b))) [] (path_headers (Binding_new u))
              = Inr (replicate (length (path_headers b)) [])"
    using list_resize_fresh [OF l2] by (simp add: Binding_new_def)
  show ?thesis
    unfolding read_binding_def
    by (simp only: s1 s2 s3 s4 s5 s6 z1 s7 s8 z2 p Let_def split_conv sum.case) simp
qed

lemma read_bindings_step:
  assumes g: "good iss"
    and nfk: "NUL_free k"
    and fresh: "\<forall>k' \<in> set (map fst acc). k' < k"
    and r: "rest iss = k @ NUL # x"
    and rb: "read_binding h slot (iss\<lparr>rest := x\<rparr>) (Binding_new u) = Inr (b, iss', slot')"
  shows "read_bindings h u (Suc n) slot iss \<lparr>bindings = acc, cas = c\<rparr>
           = read_bindings h u n slot' iss' \<lparr>bindings = acc @ [(k, b)], cas = c\<rparr>"
proof -
  have s1: "getline iss [] = (k, iss\<lparr>rest := x\<rparr>)"
    by (rule getline_NUL [OF g nfk r])
  have s2: "get_binding u k \<lparr>bindings = acc, cas = c\<rparr>
              = (Binding_new u, \<lparr>bindings = acc @ [(k, Binding_new u)], cas = c\<rparr>)"
    using get_binding_fresh [of "\<lparr>bindings = acc, cas = c\<rparr>" k u] fresh by simp
  have s4: "Bindings_assign k b (acc @ [(k, Binding_new u)]) = acc @ [(k, b)]"
    by (rule Bindings_assign_last [OF fresh])
  show ?thesis
    by (simp add: s1 s2 rb s4)
qed

lemma read_bindings_serialized:
  assumes "good iss"
    and "list_all (\<lambda>kb. NUL_free (fst kb) \<and> Binding_ok (snd kb)) bs"
    and "sorted_wrt (<) (map fst (acc @ bs))"
    and "rest iss = serialize_bindings h bs @ r"
  shows "\<exists>slot'. read_bindings h u (length bs + m) slot iss \<lparr>bindings = acc, cas = c\<rparr>
           = read_bindings h u m slot' (iss\<lparr>rest := r\<rparr>) \<lparr>bindings = acc @ bs, cas = c\<rparr>"
  using assms
proof (induction bs arbitrary: iss acc slot)
  case Nil
  from Nil.prems(4) have "iss\<lparr>rest := r\<rparr> = iss" by simp
  then have "read_bindings h u (length [] + m) slot iss \<lparr>bindings = acc, cas = c\<rparr>
           = read_bindings h u m slot (iss\<lparr>rest := r\<rparr>) \<lparr>bindings = acc @ [], cas = c\<rparr>"
    by simp
  then show ?case by blast
next
  case (Cons kb bs)
  obtain k b where kb: "kb = (k, b)" by (cases kb)
  let ?x = "serialize_path_headers (path_headers b) @ (serialize_bindings h bs @ r)"
  let ?tl = "uri b @ NUL # cid b @ NUL #
              int_bytes h (cseq b) @ int_bytes h (expires b) @ int_bytes h (priority b) @
              int_bytes h (of_nat (length (params b))) @ serialize_params (params b) @
              int_bytes h (of_nat (length (path_headers b))) @ ?x"
  let ?slot1 = "of_nat (length (params b)) :: int32"
  from Cons.prems(2) kb have nfk: "NUL_free k" and okb: "Binding_ok b"
    and oks: "list_all (\<lambda>kb. NUL_free (fst kb) \<and> Binding_ok (snd kb)) bs"
    by simp_all
  from Cons.prems(3) kb have fresh: "\<forall>k' \<in> set (map fst acc). k' < k"
    by (auto simp: sorted_wrt_append)
  have r0: "rest iss = k @ NUL # ?tl"
    using Cons.prems(4) kb by (simp add: serialize_binding_def)
  have ph: "read_path_headers (iss\<lparr>rest := ?x\<rparr>) (replicate (length (path_headers b)) [])
              = (path_headers b, iss\<lparr>rest := serialize_bindings h bs @ r\<rparr>)"
    using read_path_headers_ok [of "iss\<lparr>rest := ?x\<rparr>" "path_headers b" _
        "serialize_bindings h bs @ r"] Cons.prems(1) okb
    by (simp add: good_rest_update Binding_ok_def)
  have rb: "read_binding h slot (iss\<lparr>rest := ?tl\<rparr>) (Binding_new u)
              = Inr (b, iss\<lparr>rest := serialize_bindings h bs @ r\<rparr>, ?slot1)"
    using read_binding_fields [of "iss\<lparr>rest := ?tl\<rparr>" b h ?x _ slot u] Cons.prems(1) okb ph
    by (simp add: good_rest_update)
  have step: "read_bindings h u (Suc (length bs + m)) slot iss \<lparr>bindings = acc, cas = c\<rparr>
           = read_bindings h u (length bs + m) ?slot1 (iss\<lparr>rest := serialize_bindings h bs @ r\<rparr>)
               \<lparr>bindings = acc @ [(k, b)], cas = c\<rparr>"
    by (rule read_bindings_step [OF Cons.prems(1) nfk fresh r0 rb])
  have "\<exists>slot'. read_bindings h u (length bs + m) ?slot1
              (iss\<lparr>rest := serialize_bindings h bs @ r\<rparr>) \<lparr>bindings = acc @ [(k, b)], cas = c\<rparr>
            = read_bindings h u m slot' (iss\<lparr>rest := r\<rparr>)
                \<lparr>bindings = (acc @ [(k, b)]) @ bs, cas = c\<rparr>"
    using Cons.IH [of "iss\<lparr>rest := serialize_bindings h bs @ r\<rparr>" "acc @ [(k, b)]" ?slot1]
      Cons.prems(1,3) oks kb by (simp add: good_rest_update)
  then obtain slot' where ih:
    "read_bindings h u (length bs + m) ?slot1
              (iss\<lparr>rest := serialize_bindings h bs @ r\<rparr>) \<lparr>bindings = acc @ [(k, b)], cas = c\<rparr>
            = read_bindings h u m slot' (iss\<lparr>rest := r\<rparr>)
                \<lparr>bindings = (acc @ [(k, b)]) @ bs, cas = c\<rparr>"
    by blast
  have "read_bindings h u (length (kb # bs) + m) slot iss \<lparr>bindings = acc, cas = c\<rparr>
          = read_bindings h u m slot' (iss\<lparr>rest := r\<rparr>) \<lparr>bindings = acc @ kb # bs, cas = c\<rparr>"
    using step ih kb by simp
  then show ?case by blast
qed

lemma read_int_num_bindings:
  "read_int h (istringstream (serialize_aor h a)) old
     = (of_nat (length (bindings a)),
        (istringstream (serialize_aor h a))\<lparr>rest := serialize_bindings h (bindings a)\<rparr>)"
  by (rule read_int_bytes) (simp_all add: good_def istringstream_def serialize_aor_def)

lemma deserialize_serialize_bindings:
  assumes "AoR_ok a"
  shows "deserialize_aor h u (serialize_aor h a) = Inr \<lparr>bindings = bindings a, cas = 0\<rparr>"
proof -
  let ?iss = "(istringstream (serialize_aor h a))\<lparr>rest := serialize_bindings h (bindings a)\<rparr>"
  from assms have len: "length (bindings a) < 2 ^ 31"
    and oks: "list_all (\<lambda>kb. NUL_free (fst kb) \<and> Binding_ok (snd kb)) (bindings a)"
    and srt: "sorted_wrt (<) (map fst ([] @ bindings a))"
    by (simp_all add: AoR_ok_def Bindings_ok_def)
  have g: "good ?iss"
    by (simp add: good_def istringstream_def)
  have "\<exists>slot'. read_bindings h u (length (bindings a) + 0) (u_num_params u) ?iss
              \<lparr>bindings = [], cas = 0\<rparr>
            = read_bindings h u 0 slot' (?iss\<lparr>rest := []\<rparr>) \<lparr>bindings = [] @ bindings a, cas = 0\<rparr>"
    by (rule read_bindings_serialized [OF g oks srt]) simp
  then have "read_bindings h u (length (bindings a)) (u_num_params u) ?iss
               \<lparr>bindings = [], cas = 0\<rparr> = Inr \<lparr>bindings = bindings a, cas = 0\<rparr>"
    by auto
  then show ?thesis
    unfolding deserialize_aor_def
    by (simp add: read_int_num_bindings sint_of_nat_small [OF len] AoR_new_def)
qed

lemma getline_eof:
  assumes "good iss" "NUL_free s" "s \<noteq> []" "rest iss = s"
  shows "getline iss old = (s, iss\<lparr>rest := [], eofbit := True, failbit := False\<rparr>)"
proof -
  have t: "takeWhile (\<lambda>c. c \<noteq> NUL) s = s" and d: "dropWhile (\<lambda>c. c \<noteq> NUL) s = []"
    using NUL_free_all [OF assms(2)] by simp_all
  show ?thesis
    using assms(1,3) by (simp add: getline_def assms(4) t d)
qed

lemma serialize_path_headers_Nil: "serialize_path_headers ps = [] \<longleftrightarrow> ps = []"
  by (cases ps) simp_all

lemma read_path_headers_truncated:
  assumes "good iss"
    and "list_all NUL_free ps"
    and "ps \<noteq> []" "last ps \<noteq> []"
    and "length olds = length ps"
    and "rest iss = butlast (serialize_path_headers ps)"
  shows "read_path_headers iss olds = (ps, iss\<lparr>rest := [], eofbit := True, failbit := False\<rparr>)"
  using assms
proof (induction ps arbitrary: iss olds)
  case Nil
  then show ?case by simp
next
  case (Cons p ps)
  obtain o1 olds' where olds: "olds = o1 # olds'" and len: "length olds' = length ps"
    using Cons.prems(5) by (cases olds) auto
  from Cons.prems(2) have nf: "NUL_free p" and rest_ok: "list_all NUL_free ps"
    by simp_all
  show ?case
  proof (cases "ps = []")
    case True
    with Cons.prems(4,6) have "p \<noteq> []" "rest iss = p" by simp_all
    then have "getline iss o1 = (p, iss\<lparr>rest := [], eofbit := True, failbit := False\<rparr>)"
      using getline_eof [OF Cons.prems(1) nf] by simp
    with True len show ?thesis by (simp add: olds)
  next
    case False
    then have ne: "serialize_path_headers ps \<noteq> []"
      by (simp add: serialize_path_headers_Nil)
    have r0: "rest iss = p @ NUL # butlast (serialize_path_headers ps)"
      using Cons.prems(6) ne by (simp add: butlast_append)
    have g1: "getline iss o1 = (p, iss\<lparr>rest := butlast (serialize_path_headers ps)\<rparr>)"
      by (rule getline_NUL [OF Cons.prems(1) nf r0])
    have ih: "read_path_headers (iss\<lparr>rest := butlast (serialize_path_headers ps)\<rparr>) olds'
                = (ps, iss\<lparr>rest := [], eofbit := True, failbit := False\<rparr>)"
      using Cons.IH [of "iss\<lparr>rest := butlast (serialize_path_headers ps)\<rparr>" olds']
        Cons.prems(1,4) rest_ok len False
      by (simp add: good_rest_update)
    show ?thesis
      by (simp add: olds g1 ih)
  qed
qed

lemma deserialize_butlast:
  assumes ok: "AoR_ok a"
    and ne: "bindings a \<noteq> []"
    and ph: "path_headers (snd (last (bindings a))) \<noteq> []"
    and lp: "last (path_headers (snd (last (bindings a)))) \<noteq> []"
  shows "deserialize_aor h u (butlast (serialize_aor h a)) = Inr \<lparr>bindings = bindings a, cas = 0\<rparr>"
proof -
  obtain bs k b where split: "bindings a = bs @ [(k, b)]"
    using ne by (metis surj_pair rev_exhaust)
  let ?x = "butlast (serialize_path_headers (path_headers b))"
  let ?tl = "uri b @ NUL # cid b @ NUL #
              int_bytes h (cseq b) @ int_bytes h (expires b) @ int_bytes h (priority b) @
              int_bytes h (of_nat (length (params b))) @ serialize_params (params b) @
              int_bytes h (of_nat (length (path_headers b))) @ ?x"
  let ?s = "int_bytes h (of_nat (length (bindings a))) @ serialize_bindings h bs @ k @ NUL # ?tl"
  let ?iss = "(istringstream ?s)\<lparr>rest := serialize_bindings h bs @ k @ NUL # ?tl\<rparr>"
  from ph lp split have phb: "path_headers b \<noteq> []" "last (path_headers b) \<noteq> []"
    by simp_all
  then have ne_ser: "serialize_path_headers (path_headers b) \<noteq> []"
    by (simp add: serialize_path_headers_Nil)
  have ser_app: "serialize_bindings h (xs @ ys) = serialize_bindings h xs @ serialize_bindings h ys"
    for xs ys by (induction xs) simp_all
  have trunc: "butlast (serialize_aor h a) = ?s"
    using ne_ser by (simp add: serialize_aor_def split ser_app serialize_binding_def butlast_append)
  from ok split have len: "length (bindings a) < 2 ^ 31"
    and oks: "list_all (\<lambda>kb. NUL_free (fst kb) \<and> Binding_ok (snd kb)) bs"
    and nfk: "NUL_free k" and okb: "Binding_ok b"
    and srt: "sorted_wrt (<) (map fst ([] @ bs))"
    and fresh: "\<forall>k' \<in> set (map fst ([] @ bs)). k' < k"
    by (auto simp: AoR_ok_def Bindings_ok_def sorted_wrt_append)
  have g: "good ?iss"
    by (simp add: good_def istringstream_def)
  have s1: "read_int h (istringstream ?s) (u_num_bindings u) = (of_nat (length (bindings a)), ?iss)"
    by (rule read_int_bytes) (simp_all add: good_def istringstream_def)
  have "\<exists>slot'. read_bindings h u (length bs + 1) (u_num_params u) ?iss \<lparr>bindings = [], cas = 0\<rparr>
            = read_bindings h u 1 slot' (?iss\<lparr>rest := k @ NUL # ?tl\<rparr>)
                \<lparr>bindings = [] @ bs, cas = 0\<rparr>"
    by (rule read_bindings_serialized [OF g oks srt]) simp
  then obtain slot where s2:
    "read_bindings h u (length bs + 1) (u_num_params u) ?iss \<lparr>bindings = [], cas = 0\<rparr>
       = read_bindings h u 1 slot (?iss\<lparr>rest := k @ NUL # ?tl\<rparr>) \<lparr>bindings = [] @ bs, cas = 0\<rparr>"
    by blast
  have p: "read_path_headers (?iss\<lparr>rest := ?x\<rparr>) (replicate (length (path_headers b)) [])
             = (path_headers b, ?iss\<lparr>rest := [], eofbit := True, failbit := False\<rparr>)"
    using read_path_headers_truncated [of "?iss\<lparr>rest := ?x\<rparr>" "path_headers b"] okb phb g
    by (simp add: good_rest_update Binding_ok_def)
  have rb: "read_binding h slot (?iss\<lparr>rest := ?tl\<rparr>) (Binding_new u)
              = Inr (b, ?iss\<lparr>rest := [], eofbit := True, failbit := False\<rparr>,
                     of_nat (length (params b)))"
    using read_binding_fields [of "?iss\<lparr>rest := ?tl\<rparr>" b h ?x _ slot u] g okb p
    by (simp add: good_rest_update)
  have s3: "read_bindings h u (Suc 0) slot (?iss\<lparr>rest := k @ NUL # ?tl\<rparr>)
              \<lparr>bindings = [] @ bs, cas = 0\<rparr>
            = read_bindings h u 0 (of_nat (length (params b)))
                (?iss\<lparr>rest := [], eofbit := True, failbit := False\<rparr>)
                \<lparr>bindings = ([] @ bs) @ [(k, b)], cas = 0\<rparr>"
    using read_bindings_step [of "?iss\<lparr>rest := k @ NUL # ?tl\<rparr>" k "[] @ bs" "?tl" h slot u b _
        "of_nat (length (params b))" 0 0]
      g nfk fresh rb by (simp add: good_rest_update)
  have "read_bindings h u (length (bindings a)) (u_num_params u) ?iss \<lparr>bindings = [], cas = 0\<rparr>
          = Inr \<lparr>bindings = bindings a, cas = 0\<rparr>"
    using s2 s3 by (simp add: split)
  then show ?thesis
    unfolding deserialize_aor_def trunc
    by (simp add: s1 sint_of_nat_small [OF len] AoR_new_def)
qed

subsection \<open>Expiry\<close>

lemma expire_loop_bindings:
  "fst (expire_loop bs now m) = filter (\<lambda>kb. sint now < sint (expires (snd kb))) bs"
  by (induction bs arbitrary: m) (auto simp: split_beta Let_def)

lemma expire_loop_max:
  "sint (snd (expire_loop bs now m))
     = Max (insert (sint m)
         ((\<lambda>kb. sint (expires (snd kb))) ` set (filter (\<lambda>kb. sint now < sint (expires (snd kb))) bs)))"
proof (induction bs arbitrary: m)
  case Nil
  then show ?case by simp
next
  case (Cons kb bs)
  obtain k b where kb: "kb = (k, b)" by (cases kb)
  let ?keep = "\<lambda>kb. sint now < sint (expires (snd kb))"
  let ?A = "(\<lambda>kb. sint (expires (snd kb))) ` set (filter ?keep bs)"
  have fin: "finite ?A" by simp
  show ?case
  proof (cases "sint (expires b) \<le> sint now")
    case True
    then show ?thesis
      using Cons.IH [of m] by (simp add: kb)
  next
    case False
    let ?m' = "if sint m < sint (expires b) then expires b else m"
    have "sint (snd (expire_loop (kb # bs) now m)) = sint (snd (expire_loop bs now ?m'))"
      using False by (simp add: kb split_beta Let_def)
    also have "\<dots> = Max (insert (sint ?m') ?A)"
      by (rule Cons.IH)
    also have "\<dots> = Max (insert (sint m) (insert (sint (expires b)) ?A))"
    proof (cases "sint m < sint (expires b)")
      case True
      then have m': "?m' = expires b" by simp
      have e1: "Max (insert (sint m) (insert (sint (expires b)) ?A))
              = max (sint m) (Max (insert (sint (expires b)) ?A))"
        using fin by (intro Max_insert) simp_all
      have e2: "sint (expires b) \<le> Max (insert (sint (expires b)) ?A)"
        using fin by (intro Max_ge) simp_all
      show ?thesis
        unfolding m' e1 using True e2 by linarith
    next
      case nb: False
      then have m': "?m' = m" by simp
      have c: "insert (sint m) (insert (sint (expires b)) ?A)
                 = insert (sint (expires b)) (insert (sint m) ?A)"
        by (rule insert_commute)
      have e1: "Max (insert (sint (expires b)) (insert (sint m) ?A))
              = max (sint (expires b)) (Max (insert (sint m) ?A))"
        using fin by (intro Max_insert) simp_all
      have e2: "sint m \<le> Max (insert (sint m) ?A)"
        using fin by (intro Max_ge) simp_all
      show ?thesis
        unfolding m' c e1 using nb e2 by linarith
    qed
    finally show ?thesis
      using False by (simp add: kb)
  qed
qed

lemma sint_diff_no_overflow:
  fixes a b :: int32
  assumes "0 \<le> sint b" "sint b \<le> sint a"
  shows "sint (a - b) = sint a - sint b"
proof -
  have "sint a < 2 ^ 31"
    using sint_lt [of a] by simp
  then have "- (2 ^ 31) \<le> sint a - sint b" "sint a - sint b < 2 ^ 31"
    using assms by simp_all
  then have "signed_take_bit 31 (sint a - sint b) = sint a - sint b"
    by (intro signed_take_bit_int_eq_self) simp_all
  then show ?thesis
    by (simp add: sint_word_diff)
qed

lemma expire_bindings_spec:
  "expire_bindings a now
     = (word_of_int (spec_max_expires now (unexpired now (bindings a))),
        a\<lparr>bindings := unexpired now (bindings a)\<rparr>)"
proof -
  have "snd (expire_loop (bindings a) now now)
          = word_of_int (sint (snd (expire_loop (bindings a) now now)))"
    by simp
  also have "\<dots> = word_of_int (spec_max_expires now (unexpired now (bindings a)))"
    by (simp only: expire_loop_max spec_max_expires_def unexpired_def)
  finally show ?thesis
    using expire_loop_bindings [of "bindings a" now now]
    by (simp add: expire_bindings_def split_beta unexpired_def)
qed

lemma spec_max_expires_ge: "sint now \<le> spec_max_expires now bs"
  by (simp add: spec_max_expires_def)

lemma sint_spec_max_expires:
  "sint (word_of_int (spec_max_expires now (unexpired now bs)) :: int32)
     = spec_max_expires now (unexpired now bs)"
proof -
  let ?w = "snd (expire_loop bs now now)"
  have e: "sint ?w = spec_max_expires now (unexpired now bs)"
    by (simp only: expire_loop_max spec_max_expires_def unexpired_def)
  have "sint (word_of_int (sint ?w) :: int32) = sint ?w"
    by simp
  then show ?thesis
    by (simp only: e)
qed

lemma set_aor_data_spec:
  "set_aor_data h S aor_id a now st =
     (let a' = a\<lparr>bindings := unexpired now (bindings a)\<rparr>;
          ttl = word_of_int (spec_max_expires now (bindings a')) - now;
          r = set_data S ''reg'' aor_id (serialize_aor h a') (cas a) ttl st
      in ((fst r = OK, a'), snd r))"
  by (simp add: set_aor_data_def expire_bindings_spec Let_def split_beta)

section \<open>Properties of the consolidation\<close>

lemma outranks_irrefl: "\<not> outranks c c"
  by (simp add: outranks_def)

lemma outranks_trans: "outranks a b \<Longrightarrow> outranks b c \<Longrightarrow> outranks a c"
  by (auto simp: outranks_def)

lemma outranks_not_trans: "outranks r b \<Longrightarrow> \<not> outranks p b \<Longrightarrow> \<not> outranks p r"
  by (auto simp: outranks_def)

lemma outranks_above: "outranks r b \<Longrightarrow> \<not> outranks p b \<Longrightarrow> outranks r p"
  by (auto simp: outranks_def)

lemma consolidate_append:
  "consolidate ctx (xs @ ys) =
     (let (ctx', f1) = consolidate ctx xs; (ctx'', f2) = consolidate ctx' ys in (ctx'', f1 @ f2))"
  by (induction xs arbitrary: ctx) (simp_all add: split_beta Let_def)

lemma consolidate_snoc:
  "fst (consolidate ctx (xs @ [r])) = fst (on_final_response (fst (consolidate ctx xs)) r)"
  by (simp add: consolidate_append split_beta Let_def)

lemma best_first:
  assumes "rsps \<noteq> []"
  shows "\<exists>i. first_best rsps i \<and> best (fst (consolidate (forked n) rsps)) = Some (rsps ! i)"
  using assms
proof (induction rsps rule: rev_induct)
  case Nil
  then show ?case by simp
next
  case (snoc r rsps)
  show ?case
  proof (cases "rsps = []")
    case True
    then show ?thesis
      by (simp add: first_best_def on_final_response_def forked_def Let_def outranks_irrefl)
  next
    case False
    with snoc.IH obtain i where fb: "first_best rsps i"
      and b: "best (fst (consolidate (forked n) rsps)) = Some (rsps ! i)"
      by blast
    from fb have i: "i < length rsps" by (simp add: first_best_def)
    show ?thesis
    proof (cases "outranks (snd r) (snd (rsps ! i))")
      case True
      have "first_best (rsps @ [r]) (length rsps)"
        unfolding first_best_def
      proof (intro conjI allI impI)
        show "length rsps < length (rsps @ [r])" by simp
      next
        fix j assume "j < length (rsps @ [r])"
        then consider "j < length rsps" | "j = length rsps" by fastforce
        then show "\<not> outranks (snd ((rsps @ [r]) ! j)) (snd ((rsps @ [r]) ! length rsps))"
        proof cases
          case 1
          with fb have "\<not> outranks (snd (rsps ! j)) (snd (rsps ! i))"
            by (simp add: first_best_def)
          with True have "\<not> outranks (snd (rsps ! j)) (snd r)"
            by (rule outranks_not_trans)
          with 1 show ?thesis
            by (simp add: nth_append)
        next
          case 2
          then show ?thesis by (simp add: outranks_irrefl)
        qed
      next
        fix j assume j: "j < length rsps"
        have "outranks (snd r) (snd (rsps ! j))"
        proof (cases "j < i")
          case True
          with fb have "outranks (snd (rsps ! i)) (snd (rsps ! j))"
            by (simp add: first_best_def)
          with \<open>outranks (snd r) (snd (rsps ! i))\<close> show ?thesis
            by (rule outranks_trans)
        next
          case False
          from fb j have "\<not> outranks (snd (rsps ! j)) (snd (rsps ! i))"
            by (simp add: first_best_def)
          with \<open>outranks (snd r) (snd (rsps ! i))\<close> show ?thesis
            by (rule outranks_above)
        qed
        with j show "outranks (snd ((rsps @ [r]) ! length rsps)) (snd ((rsps @ [r]) ! j))"
          by (simp add: nth_append)
      qed
      moreover have "best (fst (consolidate (forked n) (rsps @ [r]))) = Some ((rsps @ [r]) ! length rsps)"
        using True b by (simp add: consolidate_snoc on_final_response_def Let_def)
      ultimately show ?thesis by blast
    next
      case nb: False
      have "first_best (rsps @ [r]) i"
        unfolding first_best_def
      proof (intro conjI allI impI)
        show "i < length (rsps @ [r])" using i by simp
      next
        fix j assume "j < length (rsps @ [r])"
        then consider "j < length rsps" | "j = length rsps" by fastforce
        then show "\<not> outranks (snd ((rsps @ [r]) ! j)) (snd ((rsps @ [r]) ! i))"
        proof cases
          case 1
          with fb i show ?thesis by (simp add: first_best_def nth_append)
        next
          case 2
          with nb i show ?thesis by (simp add: nth_append)
        qed
      next
        fix j assume "j < i"
        with fb i show "outranks (snd ((rsps @ [r]) ! i)) (snd ((rsps @ [r]) ! j))"
          by (simp add: first_best_def nth_append)
      qed
      moreover have "best (fst (consolidate (forked n) (rsps @ [r]))) = Some ((rsps @ [r]) ! i)"
        using nb b i by (simp add: consolidate_snoc on_final_response_def Let_def nth_append)
      ultimately show ?thesis by blast
    qed
  qed
qed

section \<open>The claims about the registration store\<close>

lemma ex_aor_ok: "AoR_ok ex_aor"
  by (simp add: AoR_ok_def Bindings_ok_def Binding_ok_def NUL_free_def NUL_def ex_aor_def
      ex_binding_def)

lemma ex_path_aor_ok: "AoR_ok ex_path_aor"
  by (simp add: AoR_ok_def Bindings_ok_def Binding_ok_def NUL_free_def NUL_def ex_path_aor_def)

text \<open>
  C9. For every AoR and binding id, \<^verbatim>\<open>get_binding\<close> returns the binding already stored
  under the id when there is one, and leaves the AoR as it is; otherwise it inserts a new
  binding with empty strings and empty lists under the id, leaves every other id alone,
  and returns it. After the call the id is present, and a repeated call returns the same
  binding and does not change the AoR.
\<close>

theorem get_binding_find_or_create:
  "(Bindings_find binding_id (bindings a) = Some b \<longrightarrow> get_binding u binding_id a = (b, a)) \<and>
   (Bindings_find binding_id (bindings a) = None \<longrightarrow>
      fst (get_binding u binding_id a) = Binding_new u \<and>
      uri (Binding_new u) = [] \<and> cid (Binding_new u) = [] \<and>
      params (Binding_new u) = [] \<and> path_headers (Binding_new u) = [] \<and>
      snd (get_binding u binding_id a)
        = a\<lparr>bindings := Bindings_insert binding_id (Binding_new u) (bindings a)\<rparr> \<and>
      (\<forall>k. k \<noteq> binding_id \<longrightarrow>
         Bindings_find k (bindings (snd (get_binding u binding_id a))) = Bindings_find k (bindings a))) \<and>
   Bindings_find binding_id (bindings (snd (get_binding u binding_id a)))
     = Some (fst (get_binding u binding_id a)) \<and>
   get_binding u' binding_id (snd (get_binding u binding_id a)) = get_binding u binding_id a"
proof (cases "Bindings_find binding_id (bindings a)")
  case None
  then show ?thesis
    by (simp add: get_binding_def Let_def Binding_new_def Bindings_find_insert_same
        Bindings_find_insert_other)
next
  case (Some b')
  then show ?thesis
    by (simp add: get_binding_def)
qed

theorem get_binding_find_or_create_witness:
  "get_binding ex_uninit ''b2'' ex_aor = (ex_binding, ex_aor) \<and>
   fst (get_binding ex_uninit ''b0'' ex_aor) = Binding_new ex_uninit \<and>
   bindings (snd (get_binding ex_uninit ''b0'' ex_aor))
     = (''b0'', Binding_new ex_uninit) # bindings ex_aor \<and>
   Bindings_find ''b1'' (bindings (snd (get_binding ex_uninit ''b0'' ex_aor)))
     = Bindings_find ''b1'' (bindings ex_aor)"
proof -
  have f1: "Bindings_find ''b2'' (bindings ex_aor) = Some ex_binding"
    by (simp add: ex_aor_def)
  have f2: "Bindings_find ''b0'' (bindings ex_aor) = None"
    by (simp add: ex_aor_def)
  have ins: "Bindings_insert ''b0'' (Binding_new ex_uninit) (bindings ex_aor)
               = (''b0'', Binding_new ex_uninit) # bindings ex_aor"
    by (simp add: ex_aor_def)
  show ?thesis
    using get_binding_find_or_create [of "''b2''" ex_aor ex_binding ex_uninit ex_uninit]
      get_binding_find_or_create [of "''b0''" ex_aor ex_binding ex_uninit ex_uninit]
      f1 f2 ins
    by simp
qed

text \<open>
  C2, as amended. For every AoR whose strings hold no NUL byte and whose containers have
  fewer than \<open>2 ^ 31\<close> entries, and for either byte order, deserialising the serialised
  AoR gives the same bindings: the same ids, each with the same contact URI, Call-ID,
  CSeq, expiry, priority, parameters in order and Path headers in order. The CAS token
  is not serialised: the result carries the token 0 of a new AoR.
\<close>

theorem deserialize_aor_serialize_aor:
  assumes "AoR_ok a"
  shows "deserialize_aor h u (serialize_aor h a) = Inr (a\<lparr>cas := 0\<rparr>)"
  using deserialize_serialize_bindings [OF assms, of h u] by simp

theorem deserialize_aor_serialize_aor_witness:
  "AoR_ok ex_aor \<and>
   deserialize_aor LittleEndian ex_uninit (serialize_aor LittleEndian ex_aor)
     = Inr \<lparr>bindings = bindings ex_aor, cas = 0\<rparr> \<and>
   cas ex_aor = 5"
  using deserialize_aor_serialize_aor [OF ex_aor_ok, of LittleEndian ex_uninit] ex_aor_ok
  by (simp add: ex_aor_def)

text \<open>
  C2 as stated fails: an AoR with CAS 1 comes back with CAS 0, and a contact URI holding a
  NUL byte is cut at that byte, after which the fields are read out of step.
\<close>

theorem roundtrip_counterexample:
  "deserialize_aor LittleEndian ex_uninit (serialize_aor LittleEndian \<lparr>bindings = [], cas = 1\<rparr>)
     \<noteq> Inr \<lparr>bindings = [], cas = 1\<rparr> \<and>
   deserialize_aor BigEndian ex_uninit (serialize_aor BigEndian ex_nul_aor) \<noteq> Inr ex_nul_aor"
proof
  show "deserialize_aor LittleEndian ex_uninit (serialize_aor LittleEndian \<lparr>bindings = [], cas = 1\<rparr>)
          \<noteq> Inr \<lparr>bindings = [], cas = 1\<rparr>"
    by (simp add: deserialize_aor_def serialize_aor_def read_int_def istringstream_def good_def
        int_bytes_def bytes_int_def le_bytes_def AoR_new_def)
next
  have "deserialize_aor BigEndian ex_uninit (serialize_aor BigEndian ex_nul_aor) = Inl bad_alloc"
    by (simp add: deserialize_aor_def serialize_aor_def serialize_binding_def read_int_def
        istringstream_def good_def int_bytes_def bytes_int_def le_bytes_def AoR_new_def
        ex_nul_aor_def ex_uninit_def NUL_def getline_def get_binding_def Binding_new_def
        read_binding_def list_resize_def)
  then show "deserialize_aor BigEndian ex_uninit (serialize_aor BigEndian ex_nul_aor) \<noteq> Inr ex_nul_aor"
    by simp
qed

text \<open>
  C4, as amended. The deserialiser accepts every record the serialiser produces from an
  AoR whose strings hold no NUL byte (and returns that AoR); it does not reject
  truncated records: when the record ends in a non-empty Path header, the proper prefix
  that lacks the final NUL is deserialised to the same AoR.
\<close>

theorem deserialize_aor_truncated:
  assumes "AoR_ok a"
  shows "deserialize_aor h u (serialize_aor h a) = Inr (a\<lparr>cas := 0\<rparr>) \<and>
         (bindings a \<noteq> [] \<and> path_headers (snd (last (bindings a))) \<noteq> [] \<and>
          last (path_headers (snd (last (bindings a)))) \<noteq> [] \<longrightarrow>
            strict_prefix (butlast (serialize_aor h a)) (serialize_aor h a) \<and>
            deserialize_aor h u (butlast (serialize_aor h a)) = Inr (a\<lparr>cas := 0\<rparr>))"
proof (intro conjI impI)
  show "deserialize_aor h u (serialize_aor h a) = Inr (a\<lparr>cas := 0\<rparr>)"
    using deserialize_serialize_bindings [OF assms, of h u] by simp
next
  have "serialize_aor h a \<noteq> []"
    using length_int_bytes [of h "of_nat (length (bindings a))"]
    by (auto simp: serialize_aor_def)
  then have "serialize_aor h a = butlast (serialize_aor h a) @ [last (serialize_aor h a)]"
    by simp
  then show "strict_prefix (butlast (serialize_aor h a)) (serialize_aor h a)"
    by (metis strict_prefixI' )
next
  assume "bindings a \<noteq> [] \<and> path_headers (snd (last (bindings a))) \<noteq> [] \<and>
          last (path_headers (snd (last (bindings a)))) \<noteq> []"
  then show "deserialize_aor h u (butlast (serialize_aor h a)) = Inr (a\<lparr>cas := 0\<rparr>)"
    using deserialize_butlast [OF assms, of h u] by simp
qed

theorem deserialize_aor_truncated_witness:
  "AoR_ok ex_path_aor \<and>
   strict_prefix (butlast (serialize_aor BigEndian ex_path_aor)) (serialize_aor BigEndian ex_path_aor) \<and>
   deserialize_aor BigEndian ex_uninit (butlast (serialize_aor BigEndian ex_path_aor))
     = Inr ex_path_aor"
  using deserialize_aor_truncated [OF ex_path_aor_ok, of BigEndian ex_uninit] ex_path_aor_ok
  by (simp add: ex_path_aor_def)

text \<open>
  C4 as stated fails: for the 30-byte record of an AoR with one binding, the prefix of 29
  bytes is accepted and gives the AoR of the full record; and a record the serialiser
  produced from a contact URI with a NUL byte is not accepted, the negative parameter
  count read out of step makes \<^verbatim>\<open>resize\<close> throw.
\<close>

theorem truncated_record_counterexample:
  "strict_prefix (butlast (serialize_aor LittleEndian ex_path_aor))
     (serialize_aor LittleEndian ex_path_aor) \<and>
   deserialize_aor LittleEndian ex_uninit (butlast (serialize_aor LittleEndian ex_path_aor))
     = Inr ex_path_aor \<and>
   deserialize_aor BigEndian ex_uninit (serialize_aor BigEndian ex_nul_aor) = Inl bad_alloc"
proof (intro conjI)
  have s: "serialize_aor LittleEndian ex_path_aor =
      [CHR 0x01, CHR 0x00, CHR 0x00, CHR 0x00, CHR ''b'', CHR 0x00, CHR 0x00, CHR 0x00,
       CHR 0x01, CHR 0x00, CHR 0x00, CHR 0x00, CHR 0x02, CHR 0x00, CHR 0x00, CHR 0x00,
       CHR 0x03, CHR 0x00, CHR 0x00, CHR 0x00, CHR 0x00, CHR 0x00, CHR 0x00, CHR 0x00,
       CHR 0x01, CHR 0x00, CHR 0x00, CHR 0x00, CHR ''p'', CHR 0x00]"
    by (simp add: serialize_aor_def serialize_binding_def int_bytes_def le_bytes_def
        ex_path_aor_def NUL_def char_of_def)
  show "strict_prefix (butlast (serialize_aor LittleEndian ex_path_aor))
     (serialize_aor LittleEndian ex_path_aor)"
    unfolding s by simp
  show "deserialize_aor LittleEndian ex_uninit (butlast (serialize_aor LittleEndian ex_path_aor))
     = Inr ex_path_aor"
    unfolding s
    by (simp add: deserialize_aor_def read_int_def istringstream_def good_def bytes_int_def
        AoR_new_def ex_path_aor_def ex_uninit_def NUL_def getline_def get_binding_def
        Binding_new_def read_binding_def list_resize_def Let_def)
  show "deserialize_aor BigEndian ex_uninit (serialize_aor BigEndian ex_nul_aor) = Inl bad_alloc"
    by (simp add: deserialize_aor_def serialize_aor_def serialize_binding_def read_int_def
        istringstream_def good_def int_bytes_def bytes_int_def le_bytes_def AoR_new_def
        ex_nul_aor_def ex_uninit_def NUL_def getline_def get_binding_def Binding_new_def
        read_binding_def list_resize_def)
qed

text \<open>
  C1. For every AoR and every time \<open>now\<close> at which \<^verbatim>\<open>set_aor_data\<close> is called: the AoR
  that is serialised and written holds exactly the bindings with \<open>expires > now\<close>, those
  with \<open>expires \<le> now\<close> are removed; the TTL passed to the store's \<^verbatim>\<open>set\<close> is
  \<open>max(now, maximum expires over the remaining bindings) - now\<close> in \<^verbatim>\<open>int\<close> arithmetic,
  which is 0 when no binding remains and is the exact difference for every time
  \<open>now \<ge> 0\<close>.
\<close>

theorem set_aor_data_expiry_and_ttl:
  "set_aor_data h S aor_id a now st =
     (let a' = a\<lparr>bindings := unexpired now (bindings a)\<rparr>;
          ttl = word_of_int (spec_max_expires now (bindings a')) - now;
          r = set_data S ''reg'' aor_id (serialize_aor h a') (cas a) ttl st
      in ((fst r = OK, a'), snd r)) \<and>
   (\<forall>kb \<in> set (bindings a).
      kb \<in> set (unexpired now (bindings a)) \<longleftrightarrow> \<not> sint (expires (snd kb)) \<le> sint now) \<and>
   (\<forall>kb \<in> set (unexpired now (bindings a)). sint now < sint (expires (snd kb))) \<and>
   (unexpired now (bindings a) = [] \<longrightarrow>
      (word_of_int (spec_max_expires now (unexpired now (bindings a))) - now :: int32) = 0) \<and>
   (0 \<le> sint now \<longrightarrow>
      sint (word_of_int (spec_max_expires now (unexpired now (bindings a))) - now :: int32)
        = spec_max_expires now (unexpired now (bindings a)) - sint now)"
proof (intro conjI impI)
  show "set_aor_data h S aor_id a now st =
     (let a' = a\<lparr>bindings := unexpired now (bindings a)\<rparr>;
          ttl = word_of_int (spec_max_expires now (bindings a')) - now;
          r = set_data S ''reg'' aor_id (serialize_aor h a') (cas a) ttl st
      in ((fst r = OK, a'), snd r))"
    by (rule set_aor_data_spec)
next
  show "\<forall>kb \<in> set (bindings a).
      kb \<in> set (unexpired now (bindings a)) \<longleftrightarrow> \<not> sint (expires (snd kb)) \<le> sint now"
    by (auto simp: unexpired_def)
next
  show "\<forall>kb \<in> set (unexpired now (bindings a)). sint now < sint (expires (snd kb))"
    by (simp add: unexpired_def)
next
  assume "unexpired now (bindings a) = []"
  then show "(word_of_int (spec_max_expires now (unexpired now (bindings a))) - now :: int32) = 0"
    by (simp add: spec_max_expires_def)
next
  assume nn: "0 \<le> sint now"
  let ?m = "word_of_int (spec_max_expires now (unexpired now (bindings a))) :: int32"
  have "sint now \<le> sint ?m"
    by (simp only: sint_spec_max_expires spec_max_expires_ge)
  with nn have "sint (?m - now) = sint ?m - sint now"
    by (rule sint_diff_no_overflow)
  then show "sint (?m - now) = spec_max_expires now (unexpired now (bindings a)) - sint now"
    by (simp only: sint_spec_max_expires)
qed

theorem set_aor_data_expiry_and_ttl_witness:
  "set_aor_data LittleEndian (ex_store OK (NOT_FOUND, [], 0)) ''sip:a@x'' ex_aor 1000 []
     = ((True, ex_aor\<lparr>bindings := [(''b2'', ex_binding)]\<rparr>),
        [(''reg'', ''sip:a@x'',
          serialize_aor LittleEndian (ex_aor\<lparr>bindings := [(''b2'', ex_binding)]\<rparr>), 5, 60)]) \<and>
   unexpired 1000 (bindings ex_aor) = [(''b2'', ex_binding)] \<and>
   expires ex_binding = 1060 \<and>
   sint (word_of_int (spec_max_expires 1000 (unexpired 1000 (bindings ex_aor))) - 1000 :: int32) = 60 \<and>
   (word_of_int (spec_max_expires 1000 (unexpired 1000 [])) - 1000 :: int32) = 0"
proof -
  let ?S = "ex_store OK (NOT_FOUND, [], 0)"
  have u: "unexpired 1000 (bindings ex_aor) = [(''b2'', ex_binding)]"
    by (simp add: unexpired_def ex_aor_def ex_binding_def)
  have m: "spec_max_expires 1000 [(''b2'', ex_binding)] = 1060"
    by (simp add: spec_max_expires_def ex_binding_def)
  have k: "cas ex_aor = 5"
    by (simp add: ex_aor_def)
  have e: "unexpired 1000 (bindings (ex_aor\<lparr>bindings := []\<rparr>)) = []" "unexpired 1000 [] = []"
    by (simp_all add: unexpired_def)
  note t1 = set_aor_data_expiry_and_ttl [of LittleEndian ?S "''sip:a@x''" ex_aor 1000 "[]"]
  note t2 = set_aor_data_expiry_and_ttl [of LittleEndian ?S "''sip:a@x''"
      "ex_aor\<lparr>bindings := []\<rparr>" 1000 "[]"]
  from t1 have c1: "set_aor_data LittleEndian ?S ''sip:a@x'' ex_aor 1000 []
     = ((True, ex_aor\<lparr>bindings := [(''b2'', ex_binding)]\<rparr>),
        [(''reg'', ''sip:a@x'',
          serialize_aor LittleEndian (ex_aor\<lparr>bindings := [(''b2'', ex_binding)]\<rparr>), 5, 60)])"
    by (simp add: u m k Let_def ex_store_def)
  from t1 have c2:
    "sint (word_of_int (spec_max_expires 1000 (unexpired 1000 (bindings ex_aor))) - 1000 :: int32) = 60"
    by (simp add: u m)
  from t2 have c3: "(word_of_int (spec_max_expires 1000 (unexpired 1000 [])) - 1000 :: int32) = 0"
    by (simp only: e)
  have c4: "expires ex_binding = 1060"
    by (simp add: ex_binding_def)
  from c1 u c4 c2 c3 show ?thesis
    by blast
qed

text \<open>
  C10. \<^verbatim>\<open>set_aor_data\<close> returns true exactly when the store's \<^verbatim>\<open>set\<close> returns OK. A
  store that answers with CAS contention and one that answers with an error give the
  same result, false, and the same AoR: the caller cannot tell them apart.
\<close>

theorem set_aor_data_true_iff_OK:
  "(fst (fst (set_aor_data h S aor_id a now st)) \<longleftrightarrow>
      fst (set_data S ''reg'' aor_id
             (serialize_aor h (a\<lparr>bindings := unexpired now (bindings a)\<rparr>)) (cas a)
             (word_of_int (spec_max_expires now (unexpired now (bindings a))) - now) st) = OK) \<and>
   ((\<forall>ns k d c t. fst (set_data S1 ns k d c t st1) = DATA_CONTENTION) \<and>
    (\<forall>ns k d c t. fst (set_data S2 ns k d c t st2) = ERROR) \<longrightarrow>
      fst (set_aor_data h S1 aor_id a now st1) = fst (set_aor_data h S2 aor_id a now st2) \<and>
      \<not> fst (fst (set_aor_data h S1 aor_id a now st1)))"
  by (simp add: set_aor_data_spec Let_def)

theorem set_aor_data_true_iff_OK_witness:
  "fst (fst (set_aor_data LittleEndian (ex_store OK (NOT_FOUND, [], 0)) ''sip:a@x'' ex_aor 1000 [])) \<and>
   fst (set_aor_data LittleEndian (ex_store DATA_CONTENTION (NOT_FOUND, [], 0)) ''sip:a@x'' ex_aor 1000 [])
     = fst (set_aor_data LittleEndian (ex_store ERROR (NOT_FOUND, [], 0)) ''sip:a@x'' ex_aor 1000 []) \<and>
   \<not> fst (fst (set_aor_data LittleEndian (ex_store DATA_CONTENTION (NOT_FOUND, [], 0)) ''sip:a@x''
              ex_aor 1000 []))"
proof -
  let ?g = "(NOT_FOUND, [], 0) :: Status \<times> string \<times> uint64"
  have h1: "\<forall>ns k d c t. fst (set_data (ex_store DATA_CONTENTION ?g) ns k d c t []) = DATA_CONTENTION"
    by (simp add: ex_store_def)
  have h2: "\<forall>ns k d c t. fst (set_data (ex_store ERROR ?g) ns k d c t []) = ERROR"
    by (simp add: ex_store_def)
  note t = set_aor_data_true_iff_OK [of LittleEndian "ex_store OK ?g" "''sip:a@x''"
      ex_aor 1000 "[]" "ex_store DATA_CONTENTION ?g" "[]" "ex_store ERROR ?g" "[]"]
  from t have c1: "fst (fst (set_aor_data LittleEndian (ex_store OK ?g) ''sip:a@x'' ex_aor 1000 []))"
    by (simp add: ex_store_def)
  from t h1 h2 have c2:
    "fst (set_aor_data LittleEndian (ex_store DATA_CONTENTION ?g) ''sip:a@x'' ex_aor 1000 [])
       = fst (set_aor_data LittleEndian (ex_store ERROR ?g) ''sip:a@x'' ex_aor 1000 []) \<and>
     \<not> fst (fst (set_aor_data LittleEndian (ex_store DATA_CONTENTION ?g) ''sip:a@x'' ex_aor 1000 []))"
    by blast
  from c1 c2 show ?thesis
    by blast
qed

text \<open>
  C3. \<^verbatim>\<open>get_aor_data\<close> returns: when the store's \<^verbatim>\<open>get\<close> returns OK, the AoR that
  \<^verbatim>\<open>deserialize_aor\<close> builds from the data, with the CAS the store returned (so, for data
  written from a well-formed AoR, that AoR's bindings with the store's CAS; an exception
  of \<^verbatim>\<open>deserialize_aor\<close> is passed on); when the store returns NOT_FOUND, a new AoR with
  no bindings and CAS 0; when the store returns ERROR, the null pointer.
\<close>

theorem get_aor_data_by_status:
  "(fst (get_data S ''reg'' aor_id st) = (OK, data, c) \<longrightarrow>
      fst (get_aor_data h u S aor_id st)
        = (case deserialize_aor h u data of
             Inl e \<Rightarrow> Inl e
           | Inr a \<Rightarrow> Inr (Some \<lparr>bindings = bindings a, cas = c\<rparr>))) \<and>
   (fst (get_data S ''reg'' aor_id st) = (OK, serialize_aor h a0, c) \<and> AoR_ok a0 \<longrightarrow>
      fst (get_aor_data h u S aor_id st) = Inr (Some \<lparr>bindings = bindings a0, cas = c\<rparr>)) \<and>
   (fst (fst (get_data S ''reg'' aor_id st)) = NOT_FOUND \<longrightarrow>
      fst (get_aor_data h u S aor_id st) = Inr (Some \<lparr>bindings = [], cas = 0\<rparr>)) \<and>
   (fst (fst (get_data S ''reg'' aor_id st)) = ERROR \<longrightarrow>
      fst (get_aor_data h u S aor_id st) = Inr None)"
proof (intro conjI impI)
  assume "fst (get_data S ''reg'' aor_id st) = (OK, data, c)"
  then show "fst (get_aor_data h u S aor_id st)
        = (case deserialize_aor h u data of
             Inl e \<Rightarrow> Inl e
           | Inr a \<Rightarrow> Inr (Some \<lparr>bindings = bindings a, cas = c\<rparr>))"
    by (cases "get_data S ''reg'' aor_id st")
      (auto simp: get_aor_data_def split: sum.splits)
next
  assume "fst (get_data S ''reg'' aor_id st) = (OK, serialize_aor h a0, c) \<and> AoR_ok a0"
  then show "fst (get_aor_data h u S aor_id st) = Inr (Some \<lparr>bindings = bindings a0, cas = c\<rparr>)"
    by (cases "get_data S ''reg'' aor_id st")
      (auto simp: get_aor_data_def deserialize_serialize_bindings)
next
  assume "fst (fst (get_data S ''reg'' aor_id st)) = NOT_FOUND"
  then show "fst (get_aor_data h u S aor_id st) = Inr (Some \<lparr>bindings = [], cas = 0\<rparr>)"
    by (cases "get_data S ''reg'' aor_id st")
      (auto simp: get_aor_data_def AoR_new_def)
next
  assume "fst (fst (get_data S ''reg'' aor_id st)) = ERROR"
  then show "fst (get_aor_data h u S aor_id st) = Inr None"
    by (cases "get_data S ''reg'' aor_id st")
      (auto simp: get_aor_data_def)
qed

theorem get_aor_data_by_status_witness:
  "fst (get_aor_data BigEndian ex_uninit (ex_store OK (OK, serialize_aor BigEndian ex_aor, 9))
         ''sip:a@x'' [])
     = Inr (Some \<lparr>bindings = bindings ex_aor, cas = 9\<rparr>) \<and>
   fst (get_aor_data BigEndian ex_uninit (ex_store OK (NOT_FOUND, [], 0)) ''sip:a@x'' [])
     = Inr (Some \<lparr>bindings = [], cas = 0\<rparr>) \<and>
   fst (get_aor_data BigEndian ex_uninit (ex_store OK (ERROR, [], 0)) ''sip:a@x'' [])
     = Inr None"
proof -
  note t1 = get_aor_data_by_status [of "ex_store OK (OK, serialize_aor BigEndian ex_aor, 9)"
      "''sip:a@x''" "[]" "serialize_aor BigEndian ex_aor" 9 BigEndian ex_uninit ex_aor]
  note t2 = get_aor_data_by_status [of "ex_store OK (NOT_FOUND, [], 0)"
      "''sip:a@x''" "[]" "[]" 0 BigEndian ex_uninit ex_aor]
  note t3 = get_aor_data_by_status [of "ex_store OK (ERROR, [], 0)"
      "''sip:a@x''" "[]" "[]" 0 BigEndian ex_uninit ex_aor]
  have g1: "fst (get_data (ex_store OK (OK, serialize_aor BigEndian ex_aor, 9)) ''reg'' ''sip:a@x'' [])
              = (OK, serialize_aor BigEndian ex_aor, 9)"
    by (simp add: ex_store_def)
  have g2: "fst (fst (get_data (ex_store OK (NOT_FOUND, [], 0)) ''reg'' ''sip:a@x'' [])) = NOT_FOUND"
    by (simp add: ex_store_def)
  have g3: "fst (fst (get_data (ex_store OK (ERROR, [], 0)) ''reg'' ''sip:a@x'' [])) = ERROR"
    by (simp add: ex_store_def)
  from t1 g1 ex_aor_ok
  have c1: "fst (get_aor_data BigEndian ex_uninit
                   (ex_store OK (OK, serialize_aor BigEndian ex_aor, 9)) ''sip:a@x'' [])
              = Inr (Some \<lparr>bindings = bindings ex_aor, cas = 9\<rparr>)"
    by blast
  from t2 g2
  have c2: "fst (get_aor_data BigEndian ex_uninit (ex_store OK (NOT_FOUND, [], 0)) ''sip:a@x'' [])
              = Inr (Some \<lparr>bindings = [], cas = 0\<rparr>)"
    by blast
  from t3 g3
  have c3: "fst (get_aor_data BigEndian ex_uninit (ex_store OK (ERROR, [], 0)) ''sip:a@x'' [])
              = Inr None"
    by blast
  from c1 c2 c3 show ?thesis
    by blast
qed

section \<open>The claims about the thread dispatcher\<close>

lemma on_exception_response:
  "Respond_stateless rd PJSIP_SC_INTERNAL_SERVER_ERROR (Some 600) \<in> set (fst (on_exception n rd))
     \<longleftrightarrow> (\<exists>m. msg rd = PJSIP_REQUEST_MSG m \<and> m \<noteq> PJSIP_ACK_METHOD)"
  by (cases "msg rd") (auto simp: on_exception_def Let_def)

lemma on_exception_responses:
  "Respond_stateless rd' code hdr \<in> set (fst (on_exception n rd)) \<Longrightarrow>
     rd' = rd \<and> code = 500 \<and> hdr = Some 600"
  by (cases "msg rd")
    (auto simp: on_exception_def Let_def PJSIP_SC_INTERNAL_SERVER_ERROR_def split: if_splits)

lemma on_exception_outcome:
  "snd (on_exception n rd) = (if n = 1 then Exited 1 else Returned ())"
  by (simp add: on_exception_def Let_def)

text \<open>
  C5. When the processing of a dequeued message event crashes, the handler block of the
  worker's barrier runs: a 500 Internal Server Error with a Retry-After of 600 is sent
  stateless for the message exactly when it is a request whose method is not ACK, and no
  other response is sent; with exactly one worker thread the process then ends (the
  block calls \<^verbatim>\<open>exit(1)\<close>) and no later event is handled; otherwise the worker frees
  the clone, records the latency and goes on with the next event.
\<close>

theorem worker_thread_exception_barrier:
  assumes "rdata me = Some rd" and "crashes me"
  shows "(Respond_stateless rd 500 (Some 600) \<in> set (fst (handle_event n (MESSAGE me)))
            \<longleftrightarrow> (\<exists>m. msg rd = PJSIP_REQUEST_MSG m \<and> m \<noteq> PJSIP_ACK_METHOD)) \<and>
         (\<forall>rd' code hdr. Respond_stateless rd' code hdr \<in> set (fst (handle_event n (MESSAGE me)))
            \<longrightarrow> rd' = rd \<and> code = 500 \<and> hdr = Some 600) \<and>
         (n = 1 \<longrightarrow>
            worker_thread n (MESSAGE me # qes)
              = (Process_rx_data rd # fst (on_exception n rd), Exited 1)) \<and>
         (n \<noteq> 1 \<longrightarrow>
            worker_thread n (MESSAGE me # qes)
              = (Process_rx_data rd # fst (on_exception n rd) @ after_message me rd @
                   [Delete_message_event] @ fst (worker_thread n qes),
                 snd (worker_thread n qes)))"
proof (intro conjI allI impI)
  have h: "fst (handle_event n (MESSAGE me))
             = (if n = 1 then Process_rx_data rd # fst (on_exception n rd)
                else Process_rx_data rd # fst (on_exception n rd) @ after_message me rd @
                       [Delete_message_event])"
    using assms on_exception_outcome [of n rd]
    by (cases "on_exception n rd") (auto simp: handle_event_def)
  have am: "Respond_stateless rd' code hdr \<notin> set (after_message me rd)" for rd' code hdr
    by (auto simp: after_message_def split: option.splits)
  show "Respond_stateless rd 500 (Some 600) \<in> set (fst (handle_event n (MESSAGE me)))
            \<longleftrightarrow> (\<exists>m. msg rd = PJSIP_REQUEST_MSG m \<and> m \<noteq> PJSIP_ACK_METHOD)"
    using on_exception_response [of rd n] on_exception_response [of rd 1] am
    by (simp add: h PJSIP_SC_INTERNAL_SERVER_ERROR_def)
  {
    fix rd' code hdr
    assume "Respond_stateless rd' code hdr \<in> set (fst (handle_event n (MESSAGE me)))"
    then have "Respond_stateless rd' code hdr \<in> set (fst (on_exception n rd))"
      using am by (simp add: h split: if_splits)
    then have "rd' = rd \<and> code = 500 \<and> hdr = Some 600"
      by (rule on_exception_responses)
    then show "rd' = rd" "code = 500" "hdr = Some 600" by simp_all
  }
  {
    assume "n = 1"
    then show "worker_thread n (MESSAGE me # qes)
              = (Process_rx_data rd # fst (on_exception n rd), Exited 1)"
      using assms on_exception_outcome [of n rd]
      by (cases "on_exception n rd") (auto simp: handle_event_def)
  }
  {
    assume "n \<noteq> 1"
    then show "worker_thread n (MESSAGE me # qes)
              = (Process_rx_data rd # fst (on_exception n rd) @ after_message me rd @
                   [Delete_message_event] @ fst (worker_thread n qes),
                 snd (worker_thread n qes))"
      using assms on_exception_outcome [of n rd]
      by (cases "on_exception n rd") (auto simp: handle_event_def split_beta)
  }
qed

theorem worker_thread_exception_barrier_witness:
  "worker_thread 1 [MESSAGE ex_crash, CALLBACK 3]
     = ([Process_rx_data ex_rdata, Log_exception_trail 7, Log_exception_call_id,
         Log_exception_cseq, Respond_stateless ex_rdata 500 (Some 600)], Exited 1) \<and>
   worker_thread 2 [MESSAGE ex_crash, CALLBACK 3]
     = ([Process_rx_data ex_rdata, Log_exception_trail 7, Log_exception_call_id,
         Log_exception_cseq, Respond_stateless ex_rdata 500 (Some 600),
         Rx_data_free_cloned ex_rdata, Latency_accumulate 5, Request_complete 5,
         Delete_message_event, Callback_run 3, Delete_callback 3], Returned 0) \<and>
   Respond_stateless ex_rdata 500 (Some 600) \<in> set (fst (handle_event 2 (MESSAGE ex_crash)))"
proof -
  have a: "rdata ex_crash = Some ex_rdata" "crashes ex_crash"
    by (simp_all add: ex_crash_def)
  have e: "fst (on_exception n ex_rdata)
             = [Log_exception_trail 7, Log_exception_call_id, Log_exception_cseq,
                Respond_stateless ex_rdata 500 (Some 600)]" for n
    by (simp add: on_exception_def Let_def ex_rdata_def PJSIP_SC_INTERNAL_SERVER_ERROR_def)
  have m: "msg ex_rdata = PJSIP_REQUEST_MSG PJSIP_INVITE_METHOD"
    by (simp add: ex_rdata_def)
  have r: "worker_thread 2 [CALLBACK 3] = ([Callback_run 3, Delete_callback 3], Returned 0)"
    by (simp add: handle_event_def)
  have am: "after_message ex_crash ex_rdata
              = [Rx_data_free_cloned ex_rdata, Latency_accumulate 5, Request_complete 5]"
    by (simp add: after_message_def ex_crash_def)
  note t1 = worker_thread_exception_barrier [OF a, of 1 "[CALLBACK 3]"]
  note t2 = worker_thread_exception_barrier [OF a, of 2 "[CALLBACK 3]"]
  from t1 have c1: "worker_thread 1 [MESSAGE ex_crash, CALLBACK 3]
     = ([Process_rx_data ex_rdata, Log_exception_trail 7, Log_exception_call_id,
         Log_exception_cseq, Respond_stateless ex_rdata 500 (Some 600)], Exited 1)"
    by (simp add: e del: worker_thread.simps)
  from t2 have c2: "worker_thread 2 [MESSAGE ex_crash, CALLBACK 3]
     = ([Process_rx_data ex_rdata, Log_exception_trail 7, Log_exception_call_id,
         Log_exception_cseq, Respond_stateless ex_rdata 500 (Some 600),
         Rx_data_free_cloned ex_rdata, Latency_accumulate 5, Request_complete 5,
         Delete_message_event, Callback_run 3, Delete_callback 3], Returned 0)"
    by (simp add: e r am del: worker_thread.simps)
  from t2 m have c3:
    "Respond_stateless ex_rdata 500 (Some 600) \<in> set (fst (handle_event 2 (MESSAGE ex_crash)))"
    by simp
  from c1 c2 c3 show ?thesis
    by blast
qed

lemma threads_on_rx_msg_cases:
  "threads_on_rx_msg env rd =
     (if is_deadlocked env
      then ([SAS_report_event (trail rd) BEGIN_THREAD_DISPATCHER 0, Q_is_deadlocked True,
             CL_SPROUT_SIP_DEADLOCK_log], Aborted)
      else if clone_status env \<noteq> PJ_SUCCESS
      then ([SAS_report_event (trail rd) BEGIN_THREAD_DISPATCHER 0, Q_is_deadlocked False,
             Stop_watch_start, Rx_data_clone (clone_status env), Log_clone_failure], Returned True)
      else ([SAS_report_event (trail rd) BEGIN_THREAD_DISPATCHER 0, Q_is_deadlocked False,
             Stop_watch_start, Rx_data_clone PJ_SUCCESS, Set_trail (trail rd),
             Queue_size_accumulate (q_size env), Q_push rd], Returned True))"
  by (simp add: threads_on_rx_msg_def Let_def)

text \<open>
  C6. On every receive the hook asks the queue \<^verbatim>\<open>is_deadlocked()\<close>; when the answer is
  true the process aborts and the message is neither cloned nor pushed; a push is always
  preceded by a check that answered false. The threshold that
  \<^verbatim>\<open>init_thread_dispatcher\<close> configures on the queue is 4000 milliseconds: for every
  worker count that is not negative it returns \<^verbatim>\<open>PJ_SUCCESS\<close> with that threshold set,
  and whenever it returns the threshold is 4000; for a negative count it throws from
  \<^verbatim>\<open>resize\<close> and configures nothing.
\<close>

theorem threads_on_rx_msg_deadlock_check:
  "Q_is_deadlocked (is_deadlocked env) \<in> set (fst (threads_on_rx_msg env rd)) \<and>
   (is_deadlocked env \<longrightarrow>
      snd (threads_on_rx_msg env rd) = Aborted \<and>
      (\<forall>s. Rx_data_clone s \<notin> set (fst (threads_on_rx_msg env rd))) \<and>
      (\<forall>r. Q_push r \<notin> set (fst (threads_on_rx_msg env rd)))) \<and>
   (\<forall>r. Q_push r \<in> set (fst (threads_on_rx_msg env rd)) \<longrightarrow>
      (\<exists>pre post. fst (threads_on_rx_msg env rd) = pre @ Q_push r # post \<and>
         Q_is_deadlocked False \<in> set pre)) \<and>
   (0 \<le> n \<longrightarrow>
      (\<exists>d'. init_thread_dispatcher n d = Inr (PJ_SUCCESS, d') \<and>
         deadlock_threshold d' = Some 4000)) \<and>
   (\<forall>st d'. init_thread_dispatcher n d = Inr (st, d') \<longrightarrow>
      deadlock_threshold d' = Some 4000) \<and>
   (n < 0 \<longrightarrow> init_thread_dispatcher n d = Inl length_error) \<and>
   MSG_Q_DEADLOCK_TIME = 4000"
proof (intro conjI allI impI)
  show "Q_is_deadlocked (is_deadlocked env) \<in> set (fst (threads_on_rx_msg env rd))"
    by (simp add: threads_on_rx_msg_cases)
next
  assume "is_deadlocked env"
  then show "snd (threads_on_rx_msg env rd) = Aborted"
    by (simp add: threads_on_rx_msg_cases)
next
  fix s assume "is_deadlocked env"
  then show "Rx_data_clone s \<notin> set (fst (threads_on_rx_msg env rd))"
    by (simp add: threads_on_rx_msg_cases)
next
  fix r assume "is_deadlocked env"
  then show "Q_push r \<notin> set (fst (threads_on_rx_msg env rd))"
    by (simp add: threads_on_rx_msg_cases)
next
  fix r assume p: "Q_push r \<in> set (fst (threads_on_rx_msg env rd))"
  then have c: "\<not> is_deadlocked env" "clone_status env = PJ_SUCCESS" "r = rd"
    by (auto simp: threads_on_rx_msg_cases split: if_splits)
  let ?pre = "[SAS_report_event (trail rd) BEGIN_THREAD_DISPATCHER 0, Q_is_deadlocked False,
               Stop_watch_start, Rx_data_clone PJ_SUCCESS, Set_trail (trail rd),
               Queue_size_accumulate (q_size env)]"
  have "fst (threads_on_rx_msg env rd) = ?pre @ Q_push r # [] \<and> Q_is_deadlocked False \<in> set ?pre"
    using c by (simp add: threads_on_rx_msg_cases)
  then show "\<exists>pre post. fst (threads_on_rx_msg env rd) = pre @ Q_push r # post \<and>
         Q_is_deadlocked False \<in> set pre"
    by blast
next
  assume "0 \<le> n"
  then show "\<exists>d'. init_thread_dispatcher n d = Inr (PJ_SUCCESS, d') \<and>
         deadlock_threshold d' = Some 4000"
    by (simp add: init_thread_dispatcher_def MSG_Q_DEADLOCK_TIME_def)
next
  fix st d' assume "init_thread_dispatcher n d = Inr (st, d')"
  then show "deadlock_threshold d' = Some 4000"
    by (auto simp: init_thread_dispatcher_def MSG_Q_DEADLOCK_TIME_def split: if_splits)
next
  assume "n < 0"
  then show "init_thread_dispatcher n d = Inl length_error"
    by (simp add: init_thread_dispatcher_def)
next
  show "MSG_Q_DEADLOCK_TIME = 4000"
    by (simp add: MSG_Q_DEADLOCK_TIME_def)
qed

theorem threads_on_rx_msg_deadlock_check_witness:
  "threads_on_rx_msg \<lparr>is_deadlocked = True, clone_status = PJ_SUCCESS, q_size = 2\<rparr> ex_rdata
     = ([SAS_report_event 7 BEGIN_THREAD_DISPATCHER 0, Q_is_deadlocked True,
         CL_SPROUT_SIP_DEADLOCK_log], Aborted) \<and>
   (\<exists>pre post.
      fst (threads_on_rx_msg \<lparr>is_deadlocked = False, clone_status = PJ_SUCCESS, q_size = 2\<rparr> ex_rdata)
        = pre @ Q_push ex_rdata # post \<and> Q_is_deadlocked False \<in> set pre) \<and>
   (\<exists>d'. init_thread_dispatcher 2 dispatcher_static = Inr (PJ_SUCCESS, d') \<and>
      deadlock_threshold d' = Some 4000) \<and>
   init_thread_dispatcher (- 1) dispatcher_static = Inl length_error"
proof -
  let ?e1 = "\<lparr>is_deadlocked = True, clone_status = PJ_SUCCESS, q_size = 2\<rparr>"
  let ?e2 = "\<lparr>is_deadlocked = False, clone_status = PJ_SUCCESS, q_size = 2\<rparr>"
  have p: "Q_push ex_rdata \<in> set (fst (threads_on_rx_msg ?e2 ex_rdata))"
    by (simp add: threads_on_rx_msg_def Let_def)
  have d: "is_deadlocked ?e1"
    by simp
  have t: "fst (threads_on_rx_msg ?e1 ex_rdata)
             = [SAS_report_event 7 BEGIN_THREAD_DISPATCHER 0, Q_is_deadlocked True,
                CL_SPROUT_SIP_DEADLOCK_log]"
    by (simp add: threads_on_rx_msg_def Let_def ex_rdata_def)
  from threads_on_rx_msg_deadlock_check [of ?e1 ex_rdata 2 dispatcher_static] d
  have "snd (threads_on_rx_msg ?e1 ex_rdata) = Aborted"
    by blast
  with t have c1: "threads_on_rx_msg ?e1 ex_rdata
     = ([SAS_report_event 7 BEGIN_THREAD_DISPATCHER 0, Q_is_deadlocked True,
         CL_SPROUT_SIP_DEADLOCK_log], Aborted)"
    by (simp add: prod_eq_iff)
  from threads_on_rx_msg_deadlock_check [of ?e2 ex_rdata 2 dispatcher_static] p
  have c2: "\<exists>pre post. fst (threads_on_rx_msg ?e2 ex_rdata) = pre @ Q_push ex_rdata # post \<and>
         Q_is_deadlocked False \<in> set pre"
    by blast
  have n2: "(0::int) \<le> 2" and n1: "(- 1 :: int) < 0"
    by simp_all
  from threads_on_rx_msg_deadlock_check [of ?e2 ex_rdata 2 dispatcher_static] n2
  have c3: "\<exists>d'. init_thread_dispatcher 2 dispatcher_static = Inr (PJ_SUCCESS, d') \<and>
      deadlock_threshold d' = Some 4000"
    by blast
  from threads_on_rx_msg_deadlock_check [of ?e2 ex_rdata "- 1" dispatcher_static] n1
  have c4: "init_thread_dispatcher (- 1) dispatcher_static = Inl length_error"
    by blast
  from c1 c2 c3 c4 show ?thesis
    by blast
qed

text \<open>
  C8. On every path through the receive hook the first call is the report of a SAS event
  tagged with the trail of the message. When the clone fails the message is dropped
  without being pushed, after that report, and the hook returns \<^verbatim>\<open>PJ_TRUE\<close>; whenever
  the hook returns, it returns \<^verbatim>\<open>PJ_TRUE\<close>.
\<close>

theorem threads_on_rx_msg_sas_event_first:
  "(\<exists>t. fst (threads_on_rx_msg env rd)
          = SAS_report_event (trail rd) BEGIN_THREAD_DISPATCHER 0 # t) \<and>
   (\<not> is_deadlocked env \<and> clone_status env \<noteq> PJ_SUCCESS \<longrightarrow>
      threads_on_rx_msg env rd
        = ([SAS_report_event (trail rd) BEGIN_THREAD_DISPATCHER 0, Q_is_deadlocked False,
            Stop_watch_start, Rx_data_clone (clone_status env), Log_clone_failure],
           Returned True) \<and>
      (\<forall>r. Q_push r \<notin> set (fst (threads_on_rx_msg env rd)))) \<and>
   (snd (threads_on_rx_msg env rd) = Returned True \<or> snd (threads_on_rx_msg env rd) = Aborted)"
  by (simp add: threads_on_rx_msg_cases)

theorem threads_on_rx_msg_sas_event_first_witness:
  "threads_on_rx_msg \<lparr>is_deadlocked = False, clone_status = PJ_FAILURE, q_size = 2\<rparr> ex_rdata
     = ([SAS_report_event 7 BEGIN_THREAD_DISPATCHER 0, Q_is_deadlocked False,
         Stop_watch_start, Rx_data_clone PJ_FAILURE, Log_clone_failure], Returned True)"
  using threads_on_rx_msg_sas_event_first
    [of "\<lparr>is_deadlocked = False, clone_status = PJ_FAILURE, q_size = 2\<rparr>" ex_rdata]
  by (simp add: ex_rdata_def)

section \<open>The claim about the consolidation\<close>

lemma forks_on_final_response:
  "forks (fst (on_final_response ctx r)) = (forks ctx)[fst r := COMPLETED]"
  by (simp add: on_final_response_def Let_def)

lemma snd_on_final_response:
  "snd (on_final_response ctx r)
     = (if all_final (fst (on_final_response ctx r)) then best (fst (on_final_response ctx r))
        else None)"
  by (simp add: on_final_response_def Let_def)

lemma length_forks_consolidate:
  "length (forks (fst (consolidate ctx rsps))) = length (forks ctx)"
  by (induction rsps arbitrary: ctx) (simp_all add: split_beta forks_on_final_response)

lemma nth_forks_consolidate:
  "k < length (forks ctx) \<Longrightarrow>
     forks (fst (consolidate ctx rsps)) ! k
       = (if k \<in> fst ` set rsps then COMPLETED else forks ctx ! k)"
proof (induction rsps arbitrary: ctx)
  case Nil
  then show ?case by simp
next
  case (Cons r rsps)
  have "forks (fst (consolidate ctx (r # rsps))) ! k
          = forks (fst (consolidate (fst (on_final_response ctx r)) rsps)) ! k"
    by (simp add: split_beta)
  also have "\<dots> = (if k \<in> fst ` set rsps then COMPLETED
                    else forks (fst (on_final_response ctx r)) ! k)"
    using Cons.prems by (intro Cons.IH) (simp add: forks_on_final_response)
  also have "\<dots> = (if k \<in> fst ` set (r # rsps) then COMPLETED else forks ctx ! k)"
    using Cons.prems by (auto simp: forks_on_final_response nth_list_update)
  finally show ?case .
qed

lemma all_final_consolidate:
  "all_final (fst (consolidate (forked n) rsps)) \<longleftrightarrow> (\<forall>k<n. k \<in> fst ` set rsps)"
proof -
  have len: "length (forks (fst (consolidate (forked n) rsps))) = n"
    by (simp add: length_forks_consolidate forked_def)
  have nth: "forks (fst (consolidate (forked n) rsps)) ! k = COMPLETED \<longleftrightarrow> k \<in> fst ` set rsps"
    if "k < n" for k
    using that nth_forks_consolidate [of k "forked n" rsps] by (simp add: forked_def)
  show ?thesis
    unfolding all_final_def list_all_length len using nth by blast
qed

lemma consolidate_take_Suc:
  assumes "j < length rsps"
  shows "fst (consolidate ctx (take (Suc j) rsps))
           = fst (on_final_response (fst (consolidate ctx (take j rsps))) (rsps ! j))"
  using assms by (simp add: take_Suc_conv_app_nth consolidate_snoc)

lemma consolidate_nth:
  "j < length rsps \<Longrightarrow>
     snd (consolidate ctx rsps) ! j
       = snd (on_final_response (fst (consolidate ctx (take j rsps))) (rsps ! j))"
proof (induction rsps arbitrary: ctx j)
  case Nil
  then show ?case by simp
next
  case (Cons r rsps)
  show ?case
  proof (cases j)
    case 0
    then show ?thesis by (simp add: split_beta)
  next
    case (Suc j')
    with Cons.prems have "j' < length rsps" by simp
    from Cons.IH [OF this, of "fst (on_final_response ctx r)"] Suc
    show ?thesis by (simp add: split_beta)
  qed
qed

text \<open>
  C7. For the final responses other than 2xx of the forks of a transaction, in their order
  of arrival: the best response remembered is one that no response outranks under the
  class order 6xx, 2xx, 3xx, 4xx, 5xx with the lowest code first within a class, and it
  outranks every response that arrived before it, so that among equal codes the first
  wins. A response is forwarded upstream at the arrival of a final response exactly when
  every fork has reported one by then, and it is the best response of those so far.
\<close>

theorem best_response_consolidation:
  assumes "rsps \<noteq> []"
  shows "(\<exists>i. first_best rsps i \<and> best (fst (consolidate (forked n) rsps)) = Some (rsps ! i)) \<and>
         (\<forall>j < length rsps.
            snd (consolidate (forked n) rsps) ! j
              = (if \<forall>k<n. k \<in> fst ` set (take (Suc j) rsps)
                 then best (fst (consolidate (forked n) (take (Suc j) rsps)))
                 else None))"
proof (intro conjI allI impI)
  show "\<exists>i. first_best rsps i \<and> best (fst (consolidate (forked n) rsps)) = Some (rsps ! i)"
    by (rule best_first [OF assms])
next
  fix j assume j: "j < length rsps"
  have "snd (consolidate (forked n) rsps) ! j
          = snd (on_final_response (fst (consolidate (forked n) (take j rsps))) (rsps ! j))"
    by (rule consolidate_nth [OF j])
  also have "\<dots> = (if all_final (fst (consolidate (forked n) (take (Suc j) rsps)))
                    then best (fst (consolidate (forked n) (take (Suc j) rsps))) else None)"
    by (simp only: snd_on_final_response consolidate_take_Suc [OF j])
  finally show "snd (consolidate (forked n) rsps) ! j
              = (if \<forall>k<n. k \<in> fst ` set (take (Suc j) rsps)
                 then best (fst (consolidate (forked n) (take (Suc j) rsps)))
                 else None)"
    by (simp only: all_final_consolidate)
qed

theorem best_response_consolidation_witness:
  "consolidate (forked 3) [(1, 503), (0, 486), (2, 480), (1, 480)]
     = (\<lparr>forks = [COMPLETED, COMPLETED, COMPLETED], best = Some (2, 480)\<rparr>,
        [None, None, Some (2, 480), Some (2, 480)]) \<and>
   first_best [(1, 503), (0, 486), (2, 480), (1, 480)] 2 \<and>
   outranks 600 200 \<and> outranks 200 300 \<and> outranks 300 400 \<and> outranks 400 500"
proof -
  let ?r = "[(1, 503), (0, 486), (2, 480), (1, 480)] :: (nat \<times> int) list"
  have c: "consolidate (forked 3) ?r
     = (\<lparr>forks = [COMPLETED, COMPLETED, COMPLETED], best = Some (2, 480)\<rparr>,
        [None, None, Some (2, 480), Some (2, 480)])"
    by (simp add: forked_def on_final_response_def all_final_def outranks_def class_rank_def
        numeral_3_eq_3 Let_def)
  from best_response_consolidation [of ?r 3]
  obtain i where i: "first_best ?r i" "best (fst (consolidate (forked 3) ?r)) = Some (?r ! i)"
    by blast
  from i(1) have "i < 4" by (simp add: first_best_def)
  then consider "i = 0" | "i = 1" | "i = 2" | "i = 3" by linarith
  moreover have "?r ! i = (2, 480)"
    using i(2) [unfolded c] by simp
  ultimately have "i = 2"
    by cases simp_all
  with i(1) have f: "first_best ?r 2" by simp
  have o: "outranks 600 200 \<and> outranks 200 300 \<and> outranks 300 400 \<and> outranks 400 500"
    by (simp add: outranks_def class_rank_def)
  from c f o show ?thesis by blast
qed

end
